theory Spec2Isabelle
  imports Complex_Main "HOL-Library.Sublist" "HOL-Library.Log_Nat"
begin

section \<open>Go library functions used by the shell\<close>

text \<open>
  Go strings are byte sequences; they are modelled as \<open>string\<close> (a list of 8-bit
  characters).  The functions of package \<open>strings\<close> that the sources call are modelled on
  bytes.  \<open>ToLower\<close> and \<open>TrimSpace\<close> are the ASCII behaviour of the Go functions (API
  names, argument tokens and the whitespace typed at a prompt are ASCII); on multi-byte
  runes Go additionally folds Unicode letters and trims Unicode spaces.
\<close>

definition toLowerByte :: "char \<Rightarrow> char" where
  "toLowerByte c =
     (let n = (of_char c :: nat) in if 65 \<le> n \<and> n \<le> 90 then char_of (n + 32) else c)"

definition ToLower :: "string \<Rightarrow> string" where
  "ToLower s = map toLowerByte s"

definition isSpaceByte :: "char \<Rightarrow> bool" where
  "isSpaceByte c \<longleftrightarrow> c \<in> set [CHR 0x09, CHR 0x0A, CHR 0x0B, CHR 0x0C, CHR 0x0D, CHR '' '']"

definition TrimSpace :: "string \<Rightarrow> string" where
  "TrimSpace s = rev (dropWhile isSpaceByte (rev (dropWhile isSpaceByte s)))"

text \<open>\<open>strings.FieldsFunc(s, f)\<close>: the maximal runs of bytes not satisfying \<open>f\<close>; empty
  runs are not returned.  The second argument of the loop is the field being collected.\<close>

fun fieldsLoop :: "(char \<Rightarrow> bool) \<Rightarrow> string \<Rightarrow> string \<Rightarrow> string list" where
  "fieldsLoop f cur [] = (if cur = [] then [] else [cur])"
| "fieldsLoop f cur (c # cs) =
     (if f c then (if cur = [] then fieldsLoop f [] cs else cur # fieldsLoop f [] cs)
      else fieldsLoop f (cur @ [c]) cs)"

definition FieldsFunc :: "string \<Rightarrow> (char \<Rightarrow> bool) \<Rightarrow> string list" where
  "FieldsFunc s f = fieldsLoop f [] s"

text \<open>\<open>strings.Split(s, sep)\<close> for a one-byte separator: empty fields are kept, and the
  result always has at least one element.\<close>

fun splitLoop :: "char \<Rightarrow> string \<Rightarrow> string \<Rightarrow> string list" where
  "splitLoop sep cur [] = [cur]"
| "splitLoop sep cur (c # cs) =
     (if c = sep then cur # splitLoop sep [] cs else splitLoop sep (cur @ [c]) cs)"

definition SplitByte :: "string \<Rightarrow> char \<Rightarrow> string list" where
  "SplitByte s sep = splitLoop sep [] s"

fun Join :: "string list \<Rightarrow> string \<Rightarrow> string" where
  "Join [] sep = []"
| "Join [x] sep = x"
| "Join (x # y # ys) sep = x @ sep @ Join (y # ys) sep"

fun Contains :: "string \<Rightarrow> string \<Rightarrow> bool" where
  "Contains [] sub = (sub = [])"
| "Contains (c # cs) sub = (prefix sub (c # cs) \<or> Contains cs sub)"

definition HasPrefix :: "string \<Rightarrow> string \<Rightarrow> bool" where
  "HasPrefix s p = prefix p s"

definition HasSuffix :: "string \<Rightarrow> string \<Rightarrow> bool" where
  "HasSuffix s p = suffix p s"

text \<open>\<open>strings.ReplaceAll(s, "=", "")\<close> and \<open>strings.Replace(s, "=", "", -1)\<close>: every
  occurrence of the byte \<open>=\<close> is deleted.\<close>

definition ReplaceAll_eq_empty :: "string \<Rightarrow> string" where
  "ReplaceAll_eq_empty s = filter (\<lambda>c. c \<noteq> CHR ''='') s"

definition Repeat :: "string \<Rightarrow> nat \<Rightarrow> string" where
  "Repeat s n = concat (replicate n s)"

text \<open>The verb \<open>%d\<close> of \<open>fmt\<close>: decimal digits, with a minus sign for negative numbers.\<close>

definition digitChar :: "nat \<Rightarrow> char" where
  "digitChar d = char_of (48 + d)"

function natDigits :: "nat \<Rightarrow> string" where
  "natDigits n = (if n < 10 then [digitChar n] else natDigits (n div 10) @ [digitChar (n mod 10)])"
  by pat_completeness auto
termination
  by (relation "measure (\<lambda>n. n)") auto

definition fmt_d :: "int \<Rightarrow> string" where
  "fmt_d i = (if i < 0 then ''-'' @ natDigits (nat (- i)) else natDigits (nat i))"

text \<open>\<open>filepath.Base\<close> on a system whose path separator is \<open>/\<close>.\<close>

definition Base :: "string \<Rightarrow> string" where
  "Base path =
     (if path = [] then ''.''
      else let stripped = rev (dropWhile (\<lambda>c. c = CHR ''/'') (rev path));
               elem = rev (takeWhile (\<lambda>c. c \<noteq> CHR ''/'') (rev stripped))
           in if elem = [] then ''/'' else elem)"

section \<open>The progress bar of the upload (\<open>barArrow\<close>)\<close>

definition uploadingMessage :: string where
  "uploadingMessage = ''Uploading files, please wait...''"

definition progressCharCount :: int where
  "progressCharCount = 24"

text \<open>The argument is a Go \<open>int\<close>.  It is clamped to \<open>0..100\<close> before the only
  multiplication, so no product leaves the range of a machine integer and the unbounded
  \<open>int\<close> computes the same value; \<open>/\<close> on the non-negative operands is \<open>div\<close>.\<close>

definition barArrow :: "int \<Rightarrow> string" where
  "barArrow pct0 =
     (let width = progressCharCount;
          pct1 = (if pct0 < 0 then 0 else pct0);
          pct = (if pct1 > 100 then 100 else pct1);
          pos = (pct * width) div 100
      in if pos \<ge> width then ''['' @ Repeat ''='' (nat width) @ '']''
         else (let left = Repeat ''='' (nat pos) @ ''>'';
                   right = Repeat '' '' (nat (width - pos - 1))
               in ''['' @ left @ right @ '']''))"

section \<open>The spinner controller (\<open>config/spinner.go\<close>)\<close>

text \<open>
  A \<open>*spinner.Spinner\<close> is a pointer: \<open>None\<close> is \<open>nil\<close>, \<open>Some a\<close> the address of a
  spinner object in the store.  The spinner package itself is an external library; of a
  spinner object the shell uses the label \<open>Suffix\<close>, the flag read by \<open>Active()\<close>, and
  \<open>Start()\<close> and \<open>Stop()\<close>, which set and clear that flag.  \<open>Config\<close> has the two fields
  that the spinner functions use, together with the store of spinner objects and the next
  unused address.
\<close>

record Spinner =
  Suffix :: string
  active :: bool

record Config =
  HasShell :: bool
  activeSpinners :: "nat option list"
  store :: "nat \<Rightarrow> Spinner"
  fresh :: nat

definition spinner_Start :: "nat \<Rightarrow> (nat \<Rightarrow> Spinner) \<Rightarrow> (nat \<Rightarrow> Spinner)" where
  "spinner_Start a st = st(a := (st a)\<lparr>active := True\<rparr>)"

definition spinner_Stop :: "nat \<Rightarrow> (nat \<Rightarrow> Spinner) \<Rightarrow> (nat \<Rightarrow> Spinner)" where
  "spinner_Stop a st = st(a := (st a)\<lparr>active := False\<rparr>)"

definition StartSpinner :: "Config \<Rightarrow> string \<Rightarrow> nat option \<times> Config" where
  "StartSpinner c label =
     (if \<not> HasShell c then (None, c)
      else let waiter = fresh c;
               st1 = (store c)(waiter := \<lparr>Suffix = '' '' @ label, active = False\<rparr>);
               st2 = spinner_Start waiter st1
           in (Some waiter,
               c\<lparr>activeSpinners := activeSpinners c @ [Some waiter], store := st2,
                 fresh := Suc waiter\<rparr>))"

text \<open>The loop of \<open>StopSpinner\<close> deletes the first entry equal to the pointer and
  breaks, which is \<open>remove1\<close>.\<close>

definition StopSpinner :: "Config \<Rightarrow> nat option \<Rightarrow> Config" where
  "StopSpinner c waiter =
     (case waiter of
        None \<Rightarrow> c
      | Some a \<Rightarrow> c\<lparr>store := spinner_Stop a (store c),
                     activeSpinners := remove1 (Some a) (activeSpinners c)\<rparr>)"

fun pauseLoop :: "nat option list \<Rightarrow> (nat \<Rightarrow> Spinner) \<Rightarrow> (nat \<Rightarrow> Spinner)" where
  "pauseLoop [] st = st"
| "pauseLoop (s # ss) st =
     pauseLoop ss (case s of
                     Some a \<Rightarrow> if active (st a) then spinner_Stop a st else st
                   | None \<Rightarrow> st)"

definition PauseActiveSpinners :: "Config \<Rightarrow> int \<times> Config" where
  "PauseActiveSpinners c =
     (let count = int (length (activeSpinners c))
      in (count, c\<lparr>store := pauseLoop (activeSpinners c) (store c)\<rparr>))"

fun resumeLoop :: "nat option list \<Rightarrow> (nat \<Rightarrow> Spinner) \<Rightarrow> (nat \<Rightarrow> Spinner)" where
  "resumeLoop [] st = st"
| "resumeLoop (s # ss) st =
     resumeLoop ss (case s of
                      Some a \<Rightarrow> if \<not> active (st a) then spinner_Start a st else st
                    | None \<Rightarrow> st)"

definition ResumePausedSpinners :: "Config \<Rightarrow> Config" where
  "ResumePausedSpinners c = c\<lparr>store := resumeLoop (activeSpinners c) (store c)\<rparr>"

text \<open>The handles whose animation an operation halted, and those it started, read off the
  states before and after.\<close>

definition pausedHandles :: "Config \<Rightarrow> Config \<Rightarrow> nat set" where
  "pausedHandles c c' = {a. active (store c a) \<and> \<not> active (store c' a)}"

definition startedHandles :: "Config \<Rightarrow> Config \<Rightarrow> nat set" where
  "startedHandles c c' = {a. \<not> active (store c a) \<and> active (store c' a)}"

text \<open>An interactive session with no spinner yet, and the state after one spinner was
  started and all spinners were paused once.\<close>

definition initialConfig :: Config where
  "initialConfig = \<lparr>HasShell = True, activeSpinners = [],
                     store = (\<lambda>_. \<lparr>Suffix = [], active = False\<rparr>), fresh = 0\<rparr>"

definition oneSpinner :: Config where
  "oneSpinner = snd (StartSpinner initialConfig ''busy'')"

definition oncePaused :: Config where
  "oncePaused = snd (PauseActiveSpinners oneSpinner)"

section \<open>The API command handler (\<open>apiCommand.Handle\<close>)\<close>

text \<open>
  Of a registry entry the handler reads the canonical name, the required-argument tokens
  and the asynchronous flag.  The registry \<open>r.Config.GetCache()\<close> maps lower-case names to
  entries; a missing key and a \<open>nil\<close> entry are both \<open>None\<close> (the handler only compares
  the entry with \<open>nil\<close>).
\<close>

record API =
  Name :: string
  RequiredArgs :: "string list"
  Async :: bool

text \<open>Values of type \<open>interface{}\<close> as they occur in a decoded API response, and response
  maps as association lists read with \<open>map_of\<close>.\<close>

datatype gval =
    GNil
  | GBool bool
  | GNumber rat
  | GString string
  | GSlice "gval list"
  | GMap "(string \<times> gval) list"

type_synonym gmap = "(string \<times> gval) list"

text \<open>
  What the handler and the upload functions do to the outside world is recorded as a list
  of events: text written to standard output, the calls of collaborators that are not part
  of these sources (the help command, \<open>NewAPIRequest\<close>, \<open>printResult\<close>), the call of the
  upload prompt, and, for an upload, opening a file and sending the POST request.
\<close>

datatype event =
    Stdout string
  | HelpHandle "string list"
  | APIRequest string "string list" bool
  | PrintResult gmap "string list" "string list"
  | PromptForFileUpload string gmap
  | OpenFile string
  | HttpPost string string string string string

definition newline :: string where
  "newline = [CHR 0x0A]"

text \<open>Lines 49 to 54: the name under which the registry is consulted and the tokens left
  as arguments.  The caller has checked that \<open>args\<close> is not empty.\<close>

definition resolve :: "(string \<rightharpoonup> API) \<Rightarrow> string list \<Rightarrow> string \<times> string list" where
  "resolve cache args =
     (let apiName = ToLower (args ! 0);
          apiArgs = drop 1 args
      in if cache apiName = None \<and> length args > 1
         then (ToLower (Join (take 2 args) []), drop 2 args)
         else (apiName, apiArgs))"

text \<open>Lines 68 to 80: the inner loop sets \<open>provided\<close>, the outer loop collects the
  names that were not provided.\<close>

fun providedLoop :: "string \<Rightarrow> string list \<Rightarrow> bool \<Rightarrow> bool" where
  "providedLoop required [] provided = provided"
| "providedLoop required (arg # args) provided =
     providedLoop required args
       (if Contains arg ''='' \<and> HasPrefix arg required then True else provided)"

fun missingLoop :: "string list \<Rightarrow> string list \<Rightarrow> string list \<Rightarrow> string list" where
  "missingLoop [] apiArgs missingArgs = missingArgs"
| "missingLoop (r # rs) apiArgs missingArgs =
     (let required = ReplaceAll_eq_empty r;
          provided = providedLoop required apiArgs False
      in missingLoop rs apiArgs
           (if \<not> provided then missingArgs @ [ReplaceAll_eq_empty required] else missingArgs))"

definition missingArgs :: "string list \<Rightarrow> string list \<Rightarrow> string list" where
  "missingArgs required apiArgs = missingLoop required apiArgs []"

text \<open>The bytes of the UTF-8 encodings of the three pictographs that the messages
  contain (U+1F4A9, U+1F648 and U+2705).\<close>

definition pileOfPoo :: string where
  "pileOfPoo = [CHR 0xF0, CHR 0x9F, CHR 0x92, CHR 0xA9]"

definition seeNoEvil :: string where
  "seeNoEvil = [CHR 0xF0, CHR 0x9F, CHR 0x99, CHR 0x88]"

definition checkMark :: string where
  "checkMark = [CHR 0xE2, CHR 0x9C, CHR 0x85]"

text \<open>Lines 97 to 117: the keys of the \<open>filter=\<close> and \<open>exclude=\<close> arguments.  An argument
  with such a prefix contains \<open>=\<close>, so its split has a second element.\<close>

definition keysOf :: "string \<Rightarrow> string list \<Rightarrow> string list" where
  "keysOf pre apiArgs =
     concat (map (\<lambda>arg. if HasPrefix arg pre
                         then filter (\<lambda>k. length k > 0)
                                (map TrimSpace (SplitByte (SplitByte arg (CHR ''='') ! 1) (CHR '','')))
                         else [])
                 apiArgs)"

text \<open>Lines 123 to 125: the names for which the handler calls the upload prompt.\<close>

definition isUploadParamsName :: "string \<Rightarrow> bool" where
  "isUploadParamsName apiName \<longleftrightarrow>
     apiName = ''getuploadparamsforiso'' \<or>
     apiName = ''getuploadparamsforvolume'' \<or>
     apiName = ''getuploadparamsfotemplate''"

text \<open>Lines 68 to 130, for the registry entry \<open>api\<close>.  \<open>invoke\<close> is \<open>NewAPIRequest\<close>: it
  returns a response map (\<open>None\<close> is the \<open>nil\<close> map) and an error (\<open>None\<close> is \<open>nil\<close>).\<close>

definition dispatch ::
  "bool \<Rightarrow> (string \<Rightarrow> string list \<Rightarrow> bool \<Rightarrow> gmap option \<times> string option) \<Rightarrow> API \<Rightarrow> string list
     \<Rightarrow> event list \<times> string option" where
  "dispatch hasShell invoke api apiArgs =
     (let missing = missingArgs (RequiredArgs api) apiArgs
      in if length missing > 0
         then ([Stdout (pileOfPoo @ '' Missing required parameters: '' @ '' '' @ Join missing '', '' @ newline)],
               None)
         else
           (let request = APIRequest (Name api) apiArgs (Async api)
            in case invoke (Name api) apiArgs (Async api) of
                 (response, Some err) \<Rightarrow>
                   if HasSuffix err ''context canceled'' then ([request], None)
                   else (case response of
                           Some resp \<Rightarrow> ([request, PrintResult resp [] []], Some err)
                         | None \<Rightarrow> ([request], Some err))
               | (response, None) \<Rightarrow>
                   (let filterKeys = keysOf ''filter='' apiArgs;
                        excludeKeys = keysOf ''exclude='' apiArgs;
                        resp = (case response of Some m \<Rightarrow> m | None \<Rightarrow> [])
                    in if length resp > 0
                       then ([request, PrintResult resp filterKeys excludeKeys]
                             @ (if hasShell \<and> isUploadParamsName (ToLower (Name api))
                                then [PromptForFileUpload (ToLower (Name api)) resp] else []),
                             None)
                       else ([request], None))))"

text \<open>The handler.  \<open>help\<close> is the result of the help command's handler, which receives
  the token list with its first element replaced by the resolved name.\<close>

definition Handle ::
  "(string \<rightharpoonup> API) \<Rightarrow> bool \<Rightarrow> (string \<Rightarrow> string list \<Rightarrow> bool \<Rightarrow> gmap option \<times> string option)
     \<Rightarrow> (string list \<Rightarrow> string option) \<Rightarrow> string list \<Rightarrow> event list \<times> string option" where
  "Handle cache hasShell invoke help args =
     (if length args = 0 then ([], Some ''please provide an API to execute'')
      else
        (case resolve cache args of
           (apiName, apiArgs) \<Rightarrow>
             if ''-h'' \<in> set args
             then ([HelpHandle (args[0 := apiName])], help (args[0 := apiName]))
             else (case cache apiName of
                     None \<Rightarrow> ([], Some ''unknown command or API requested'')
                   | Some api \<Rightarrow> dispatch hasShell invoke api apiArgs)))"

text \<open>The guard at the head of the earlier \<open>PromptAndUploadFileIfNeeded\<close> (its lines 40
  to 48): the function returns before its prompt unless this holds.\<close>

definition promptGuard :: "bool \<Rightarrow> string \<Rightarrow> bool" where
  "promptGuard hasShell api =
     (if \<not> hasShell then False
      else let apiName = ToLower api
           in \<not> (apiName \<noteq> ''getuploadparamsforiso'' \<and>
                  apiName \<noteq> ''getuploadparamsforvolume'' \<and>
                  apiName \<noteq> ''getuploadparamsfotemplate''))"

text \<open>The reading of the required name in the specification: the registry token without
  its trailing \<open>=\<close>; and the arguments it counts as missing.\<close>

definition spec_requiredName :: "string \<Rightarrow> string" where
  "spec_requiredName r = (if r \<noteq> [] \<and> last r = CHR ''='' then butlast r else r)"

definition spec_missingArgs :: "string list \<Rightarrow> string list \<Rightarrow> string list" where
  "spec_missingArgs required apiArgs =
     filter (\<lambda>n. \<not> (\<exists>a \<in> set apiArgs. CHR ''='' \<in> set a \<and> prefix n a))
       (map spec_requiredName required)"

text \<open>A registry with two entries, and an invoker that answers every call with a
  one-field response.\<close>

definition sampleCache :: "string \<rightharpoonup> API" where
  "sampleCache =
     [''listusers'' \<mapsto> \<lparr>Name = ''listUsers'', RequiredArgs = [], Async = False\<rparr>,
      ''getuploadparamsfortemplate'' \<mapsto>
        \<lparr>Name = ''getUploadParamsForTemplate'', RequiredArgs = [''name='', ''zoneid=''], Async = False\<rparr>,
      ''getuploadparamsforiso'' \<mapsto>
        \<lparr>Name = ''getUploadParamsForIso'', RequiredArgs = [''name='', ''zoneid=''], Async = False\<rparr>]"

definition sampleInvoke :: "string \<Rightarrow> string list \<Rightarrow> bool \<Rightarrow> gmap option \<times> string option" where
  "sampleInvoke name apiArgs async = (Some [(''getuploadparams'', GMap [])], None)"

section \<open>The instrumented request body (\<open>progressBody\<close>)\<close>

text \<open>
  \<open>progressBody.Read\<close> computes the percentage in binary64 floating point:
  \<open>int(float64(pb.read) * 100 / float64(pb.total))\<close>.  A finite binary64 number is a
  rational \<open>m * 2 ^ e\<close> with an integer \<open>m\<close> of at most 53 bits.  The conversion of an
  integer and each arithmetic operation return the exact result rounded to the nearest such
  number, ties to the even significand; \<open>float64\<close> is that rounding, on the rationals.
  The operands that occur here (64-bit integers, their products with 100, and quotients of
  such numbers) lie far inside the range of normal numbers, so overflow to infinity and
  subnormal numbers are not modelled.  \<open>ilog2 x\<close> is the exponent \<open>e\<close> with
  \<open>2 ^ e \<le> x < 2 ^ (e + 1)\<close>.  The conversion \<open>int(f)\<close> truncates towards zero.
\<close>

definition roundHalfEven :: "rat \<Rightarrow> int" where
  "roundHalfEven x =
     (let f = \<lfloor>x\<rfloor>; d = x - of_int f
      in if d < 1 / 2 then f else if d > 1 / 2 then f + 1 else if even f then f else f + 1)"

definition ilog2 :: "rat \<Rightarrow> int" where
  "ilog2 x =
     (case quotient_of x of
        (a, b) \<Rightarrow> let d = bitlen a - bitlen b in if 2 powi d \<le> x then d else d - 1)"

definition float64 :: "rat \<Rightarrow> rat" where
  "float64 x =
     (if x = 0 then 0
      else let e = ilog2 \<bar>x\<bar> - 52;
               m = roundHalfEven (\<bar>x\<bar> / 2 powi e)
           in sgn x * of_int m * 2 powi e)"

text \<open>The conversion of a floating-point number to \<open>int\<close>.\<close>

definition int_of_float64 :: "rat \<Rightarrow> int" where
  "int_of_float64 x = (if x \<ge> 0 then \<lfloor>x\<rfloor> else \<lceil>x\<rceil>)"

definition progressPct :: "int \<Rightarrow> int \<Rightarrow> int" where
  "progressPct rd tot =
     int_of_float64 (float64 (float64 (float64 (of_int rd) * 100) / float64 (of_int tot)))"



text \<open>
  The fields \<open>read\<close> and \<open>total\<close> of a \<open>progressBody\<close>.  \<open>progressBody_Read pb n\<close> is one
  call of \<open>Read\<close> in which the underlying file returned \<open>n\<close> bytes; the result is the new
  state and the percentage passed to \<open>update\<close>, if \<open>update\<close> is called.  The counters are
  64-bit integers; the bytes read from a file never exceed its size, so the sum cannot
  overflow and the counters are integers here.
\<close>

record progressBody =
  pb_read :: int
  pb_total :: int

definition progressBody_Read :: "progressBody \<Rightarrow> int \<Rightarrow> progressBody \<times> int option" where
  "progressBody_Read pb n =
     (if n > 0
      then let pb' = pb\<lparr>pb_read := pb_read pb + n\<rparr>
           in (pb', Some (progressPct (pb_read pb') (pb_total pb')))
      else (pb, None))"

text \<open>The percentages that a sequence of reads passes to \<open>update\<close>, in order.\<close>

fun forwarded :: "progressBody \<Rightarrow> int list \<Rightarrow> int list" where
  "forwarded pb [] = []"
| "forwarded pb (n # ns) =
     (case progressBody_Read pb n of
        (pb', None) \<Rightarrow> forwarded pb' ns
      | (pb', Some pct) \<Rightarrow> pct # forwarded pb' ns)"

text \<open>The byte counts after the reads that returned data, starting from \<open>k\<close> bytes.\<close>

fun cumulative :: "int \<Rightarrow> int list \<Rightarrow> int list" where
  "cumulative k [] = []"
| "cumulative k (n # ns) = (if n > 0 then [k + n] else []) @ cumulative (k + n) ns"

section \<open>The file upload (\<open>ValidateAndGetFileList\<close>, \<open>UploadFiles\<close>, \<open>uploadFile\<close>)\<close>

text \<open>
  The file system and the network are the environment.  \<open>os.Stat\<close> on a path succeeds,
  fails with an error for which \<open>os.IsNotExist\<close> holds, or fails with another error.
\<close>

datatype stat_result = StatOK | StatNotExist | StatOtherError

fun validateLoop ::
  "(string \<Rightarrow> stat_result) \<Rightarrow> string list \<Rightarrow> string list \<Rightarrow> string list
     \<Rightarrow> string list \<times> string list" where
  "validateLoop fs [] missingFiles validFiles = (missingFiles, validFiles)"
| "validateLoop fs (fp # rest) missingFiles validFiles =
     (let filePath = TrimSpace fp
      in if filePath = [] then validateLoop fs rest missingFiles validFiles
         else if fs filePath = StatNotExist
              then validateLoop fs rest (missingFiles @ [filePath]) validFiles
              else validateLoop fs rest missingFiles (validFiles @ [filePath]))"

text \<open>The result is the error (its message) or the list of valid paths.\<close>

definition ValidateAndGetFileList :: "(string \<Rightarrow> stat_result) \<Rightarrow> string \<Rightarrow> string + string list" where
  "ValidateAndGetFileList fs filePaths =
     (let filePathsList = FieldsFunc filePaths (\<lambda>r. r = CHR '','')
      in case validateLoop fs filePathsList [] [] of
           (missingFiles, validFiles) \<Rightarrow>
             if length missingFiles > 0
             then Inl (''file(s) do not exist or are not accessible: '' @ Join missingFiles '', '')
             else Inr validFiles)"

text \<open>
  What happens to one file of the batch is decided by the environment: \<open>os.Open\<close> fails;
  or the file is opened and a later local step fails before the request is sent (\<open>Stat\<close>,
  the temporary file, the multipart encoding, seeking, \<open>http.NewRequest\<close>); or the request
  is sent and \<open>client.Do\<close> returns an error; or it returns a response with a status code
  and a body.  When the request is sent, the environment also fixes the size of the encoded
  body and the numbers of bytes that the successive reads of the body return.
\<close>

datatype upload_outcome =
    OpenError string
  | PrepareError string
  | TransportError int "int list" string
  | Response int "int list" nat string

definition tab :: string where
  "tab = [CHR 0x09]"

text \<open>The closure \<open>update\<close> of \<open>uploadFile\<close> writes the progress label of the spinner.\<close>

definition progressLabel :: "int \<Rightarrow> int \<Rightarrow> string \<Rightarrow> int \<Rightarrow> string" where
  "progressLabel index count fileName pct =
     '' ['' @ fmt_d (index + 1) @ ''/'' @ fmt_d count @ ''] '' @ fileName @ tab
       @ barArrow pct @ '' '' @ fmt_d pct @ ''%''"

definition setSuffix :: "nat \<Rightarrow> string \<Rightarrow> (nat \<Rightarrow> Spinner) \<Rightarrow> (nat \<Rightarrow> Spinner)" where
  "setSuffix a s st = st(a := (st a)\<lparr>Suffix := s\<rparr>)"

text \<open>Sending the body: every percentage forwarded by a read replaces the label.\<close>

definition sendBody ::
  "int \<Rightarrow> int \<Rightarrow> string \<Rightarrow> nat \<Rightarrow> int \<Rightarrow> int list \<Rightarrow> (nat \<Rightarrow> Spinner) \<Rightarrow> (nat \<Rightarrow> Spinner)" where
  "sendBody index count fileName spn bodySize ns st =
     foldl (\<lambda>st pct. setSuffix spn (progressLabel index count fileName pct) st) st
       (forwarded \<lparr>pb_read = 0, pb_total = bodySize\<rparr> ns)"

text \<open>
  \<open>uploadFile\<close>, for the file with number \<open>index\<close> of \<open>count\<close>.  The spinner pointer is
  not \<open>nil\<close> (the caller has written through it).  The state is the store of spinner
  objects and the events so far; the result is the new state and the error (\<open>None\<close> is
  \<open>nil\<close>).
\<close>

definition uploadFile ::
  "(nat \<Rightarrow> string \<Rightarrow> upload_outcome) \<Rightarrow> nat \<Rightarrow> nat \<Rightarrow> string \<Rightarrow> string \<Rightarrow> string \<Rightarrow> string
     \<Rightarrow> string \<Rightarrow> nat \<Rightarrow> (nat \<Rightarrow> Spinner) \<times> event list
     \<Rightarrow> ((nat \<Rightarrow> Spinner) \<times> event list) \<times> string option" where
  "uploadFile net index count postURL filePath signature expires metadata spn s =
     (case s of (st, ev) \<Rightarrow>
        let fileName = Base filePath;
            post = HttpPost postURL fileName signature expires metadata
        in case net index filePath of
             OpenError e \<Rightarrow> ((st, ev @ [OpenFile filePath]), Some e)
           | PrepareError e \<Rightarrow> ((st, ev @ [OpenFile filePath]), Some e)
           | TransportError bodySize ns e \<Rightarrow>
               ((sendBody (int index) (int count) fileName spn bodySize ns st,
                 ev @ [OpenFile filePath, post]), Some e)
           | Response bodySize ns code body \<Rightarrow>
               (let st1 = sendBody (int index) (int count) fileName spn bodySize ns st;
                    ev1 = ev @ [OpenFile filePath, post]
                in if code \<noteq> 200 \<and> code \<noteq> 201
                   then ((st1, ev1),
                         Some (''['' @ fmt_d (int index + 1) @ ''/'' @ fmt_d (int count) @ ''] ''
                               @ fileName @ tab @ ''upload failed: '' @ body))
                   else ((spinner_Start spn
                            (setSuffix spn ('' '' @ uploadingMessage) (spinner_Stop spn st1)),
                          ev1 @ [Stdout (''['' @ fmt_d (int index + 1) @ ''/'' @ fmt_d (int count)
                                         @ ''] '' @ fileName @ tab @ barArrow 100 @ '' ''
                                         @ checkMark @ newline)]),
                         None)))"

text \<open>The loop of \<open>UploadFiles\<close> over the files from number \<open>i\<close> on; the state carries
  the counter \<open>errored\<close>.\<close>

fun uploadLoop ::
  "(nat \<Rightarrow> string \<Rightarrow> upload_outcome) \<Rightarrow> nat \<Rightarrow> string \<Rightarrow> string \<Rightarrow> string \<Rightarrow> string \<Rightarrow> nat
     \<Rightarrow> nat \<Rightarrow> string list \<Rightarrow> (nat \<Rightarrow> Spinner) \<times> event list \<times> int
     \<Rightarrow> (nat \<Rightarrow> Spinner) \<times> event list \<times> int" where
  "uploadLoop net count postURL signature expires metadata spinner i [] s = s"
| "uploadLoop net count postURL signature expires metadata spinner i (filePath # rest) s =
     (case s of (st, ev, errored) \<Rightarrow>
        let st1 = setSuffix spinner
                    ('' uploading '' @ fmt_d (int i + 1) @ ''/'' @ fmt_d (int count) @ '' ''
                     @ Base filePath @ ''...'') st
        in case uploadFile net i count postURL filePath signature expires metadata spinner (st1, ev) of
             ((st2, ev2), Some err) \<Rightarrow>
               uploadLoop net count postURL signature expires metadata spinner (Suc i) rest
                 (spinner_Start spinner
                    (setSuffix spinner ('' '' @ uploadingMessage) (spinner_Stop spinner st2)),
                  ev2 @ [Stdout (''Error uploading '' @ filePath @ '' : '' @ err @ newline)],
                  errored + 1)
           | ((st2, ev2), None) \<Rightarrow>
               uploadLoop net count postURL signature expires metadata spinner (Suc i) rest
                 (st2, ev2, errored))"

text \<open>The first of the required keys that the parameter map lacks.\<close>

fun firstMissingKey :: "gmap \<Rightarrow> string list \<Rightarrow> string option" where
  "firstMissingKey params [] = None"
| "firstMissingKey params (key # keys) =
     (if map_of params key = None then Some key else firstMissingKey params keys)"

definition requiredKeys :: "string list" where
  "requiredKeys = [''postURL'', ''metadata'', ''signature'', ''expires'']"

text \<open>The type assertion \<open>params[key].(string)\<close> whose second result is discarded: the
  empty string unless the value is a string.\<close>

definition stringField :: "gmap \<Rightarrow> string \<Rightarrow> string" where
  "stringField params key = (case map_of params key of Some (GString s) \<Rightarrow> s | _ \<Rightarrow> [])"

text \<open>A function returns, or the program panics (a \<open>nil\<close> dereference).\<close>

datatype status = Returned | Panicked

definition summaryLine :: "int \<Rightarrow> int \<Rightarrow> string" where
  "summaryLine errored n =
     (if errored > 0
      then seeNoEvil @ '' '' @ fmt_d errored @ '' out of '' @ fmt_d n @ '' files failed to upload.'' @ newline
      else ''All files uploaded successfully.'' @ newline)"

text \<open>
  \<open>UploadFiles\<close>.  \<open>reflect.TypeOf\<close> of a \<open>nil\<close> interface value is \<open>nil\<close>, and the call of
  \<open>Kind\<close> on it panics; of the values of a decoded response only a map has kind
  \<open>reflect.Map\<close>.  When the session has no shell, \<open>StartSpinner\<close> returns \<open>nil\<close> and the
  first assignment to \<open>spinner.Suffix\<close> panics.  A \<open>nil\<close> response map reads as the empty
  one.
\<close>

definition UploadFiles ::
  "Config \<Rightarrow> (nat \<Rightarrow> string \<Rightarrow> upload_outcome) \<Rightarrow> string \<Rightarrow> gmap \<Rightarrow> string list
     \<Rightarrow> Config \<times> event list \<times> status" where
  "UploadFiles c net api response validFiles =
     (let invalid = (c, [Stdout (''Invalid response format for getuploadparams.'' @ newline)], Returned)
      in case map_of response ''getuploadparams'' of
           None \<Rightarrow> invalid
         | Some GNil \<Rightarrow> (c, [], Panicked)
         | Some (GMap params) \<Rightarrow>
             (case firstMissingKey params requiredKeys of
                Some key \<Rightarrow>
                  (c, [Stdout (''Missing required key '' @ [CHR 0x27] @ key @ [CHR 0x27]
                               @ '' in getuploadparams response.'' @ newline)], Returned)
              | None \<Rightarrow>
                  (let postURL = stringField params ''postURL'';
                       signature = stringField params ''signature'';
                       expires = stringField params ''expires'';
                       metadata = stringField params ''metadata'';
                       ev0 = [Stdout (''Uploading files for '' @ api @ '' : ['' @ Join validFiles '' ''
                                      @ '']'' @ newline)]
                   in case StartSpinner c uploadingMessage of
                        (None, c1) \<Rightarrow>
                          if validFiles = []
                          then (StopSpinner c1 None, ev0 @ [Stdout (summaryLine 0 0)], Returned)
                          else (c1, ev0, Panicked)
                      | (Some spinner, c1) \<Rightarrow>
                          (case uploadLoop net (length validFiles) postURL signature expires metadata
                                  spinner 0 validFiles (store c1, ev0, 0) of
                             (st, ev, errored) \<Rightarrow>
                               (StopSpinner (c1\<lparr>store := st\<rparr>) (Some spinner),
                                ev @ [Stdout (summaryLine errored (int (length validFiles)))],
                                Returned))))
         | Some _ \<Rightarrow> invalid)"

text \<open>
  \<open>PromptAndUploadFilesIfNeeded\<close>.  \<open>config.IsFileUploadAPI\<close> is not part of these
  sources and is a parameter; \<open>filePaths\<close> is the string that \<open>fmt.Scanln\<close> stored.
\<close>

definition PromptAndUploadFilesIfNeeded ::
  "Config \<Rightarrow> (string \<Rightarrow> bool) \<Rightarrow> string \<Rightarrow> (string \<Rightarrow> stat_result)
     \<Rightarrow> (nat \<Rightarrow> string \<Rightarrow> upload_outcome) \<Rightarrow> string \<Rightarrow> gmap
     \<Rightarrow> Config \<times> event list \<times> status" where
  "PromptAndUploadFilesIfNeeded c IsFileUploadAPI filePaths fs net api response =
     (if \<not> HasShell c then (c, [], Returned)
      else
        let apiName = ToLower api
        in if \<not> IsFileUploadAPI apiName then (c, [], Returned)
           else
             (let prompt = Stdout ''Enter path of the file(s) to upload (comma-separated), leave empty to skip: ''
              in if filePaths = [] then (c, [prompt], Returned)
                 else case ValidateAndGetFileList fs filePaths of
                        Inl err \<Rightarrow> (c, [prompt, Stdout (err @ newline)], Returned)
                      | Inr validFiles \<Rightarrow>
                          if length validFiles = 0
                          then (c, [prompt, Stdout (''No valid files to upload.'' @ newline)], Returned)
                          else (case UploadFiles c net api response validFiles of
                                  (c', ev, st) \<Rightarrow> (c', prompt # ev, st))))"

text \<open>The files that a run tried to open and the requests it sent.\<close>

fun opened :: "event list \<Rightarrow> string list" where
  "opened [] = []"
| "opened (OpenFile p # es) = p # opened es"
| "opened (e # es) = opened es"

fun posted :: "event list \<Rightarrow> string list" where
  "posted [] = []"
| "posted (HttpPost url fileName signature expires metadata # es) = fileName # posted es"
| "posted (e # es) = posted es"

text \<open>The lines on standard output that report a failed file.\<close>

fun errorReports :: "event list \<Rightarrow> string list" where
  "errorReports [] = []"
| "errorReports (Stdout s # es) =
     (if prefix ''Error uploading '' s then s # errorReports es else errorReports es)"
| "errorReports (e # es) = errorReports es"

text \<open>The outcomes for which \<open>uploadFile\<close> returns an error.\<close>

fun failed :: "upload_outcome \<Rightarrow> bool" where
  "failed (Response bodySize ns code body) = (code \<noteq> 200 \<and> code \<noteq> 201)"
| "failed _ = True"

text \<open>The number of failing files of a batch whose first file has number \<open>i\<close>.\<close>

fun failures :: "(nat \<Rightarrow> string \<Rightarrow> upload_outcome) \<Rightarrow> nat \<Rightarrow> string list \<Rightarrow> int" where
  "failures net i [] = 0"
| "failures net i (p # ps) = (if failed (net i p) then 1 else 0) + failures net (Suc i) ps"

text \<open>Sample data: a complete credential response; a file system in which only \<open>a.txt\<close>
  exists; a network on which the second file of a batch is answered with status 500.\<close>

definition sampleResponse :: gmap where
  "sampleResponse =
     [(''getuploadparams'',
       GMap [(''postURL'', GString ''https://host/upload''), (''metadata'', GString ''m''),
             (''signature'', GString ''s''), (''expires'', GString ''e'')])]"

definition sampleFs :: "string \<Rightarrow> stat_result" where
  "sampleFs p = (if p = ''a.txt'' then StatOK else StatNotExist)"

definition sampleNet :: "nat \<Rightarrow> string \<Rightarrow> upload_outcome" where
  "sampleNet i p = (if i = 1 then Response 10 [10] 500 ''denied'' else Response 10 [10] 200 [])"

definition sampleBatch :: "string list" where
  "sampleBatch = [''a.txt'', ''b.txt'', ''c.txt'']"

section \<open>Properties of the progress bar\<close>

lemma Repeat_single: "Repeat [c] n = replicate n c"
  by (induction n) (simp_all add: Repeat_def)

lemma barArrow_in_range:
  assumes "0 \<le> p" and "p \<le> 100"
  shows "barArrow p =
           (if p = 100 then ''['' @ replicate 24 (CHR ''='') @ '']''
            else ''['' @ replicate (nat (p * 24 div 100)) (CHR ''='') @ ''>''
                   @ replicate (23 - nat (p * 24 div 100)) (CHR '' '') @ '']'')"
proof (cases "p = 100")
  case True
  then show ?thesis
    by (simp add: barArrow_def progressCharCount_def Repeat_single)
next
  case False
  with assms have "p * 24 div 100 < 24" by linarith
  moreover have "nat (24 - p * 24 div 100 - 1) = 23 - nat (p * 24 div 100)"
    using assms by linarith
  ultimately show ?thesis
    using assms False
    by (simp add: barArrow_def progressCharCount_def Repeat_single Let_def)
qed

lemma barArrow_clamp_low: "p < 0 \<Longrightarrow> barArrow p = barArrow 0"
  by (simp add: barArrow_def)

lemma barArrow_clamp_high: "100 < p \<Longrightarrow> barArrow p = barArrow 100"
  by (simp add: barArrow_def)

lemma barArrow_length_in_range:
  assumes "0 \<le> p" and "p \<le> 100"
  shows "length (barArrow p) = 26"
proof (cases "p = 100")
  case True
  then show ?thesis by (simp add: barArrow_in_range)
next
  case False
  with assms have "p * 24 div 100 < 24" by linarith
  then have "nat (p * 24 div 100) \<le> 23" by linarith
  then show ?thesis
    using False by (simp add: barArrow_in_range [OF assms])
qed

text \<open>
  Claim C8.  For every percentage \<open>p\<close> in \<open>0..100\<close> the rendered bar is \<open>[\<close>, then
  \<open>floor (p * 24 / 100)\<close> characters \<open>=\<close>, then one head \<open>>\<close> and spaces up to a width of
  24, then \<open>]\<close>; once the completed width reaches 24, which happens exactly at 100 percent,
  the head is omitted and the bar is 24 characters \<open>=\<close>.  At 0 percent the bar is \<open>[>\<close>,
  23 spaces and \<open>]\<close>.
\<close>

theorem barArrow_render:
  "(0 \<le> p \<and> p \<le> 100 \<longrightarrow>
     (let done = nat (p * 24 div 100) in
        (done = 24 \<longleftrightarrow> p = 100) \<and>
        (p < 100 \<longrightarrow>
           barArrow p = ''['' @ replicate done (CHR ''='') @ ''>'' @ replicate (23 - done) (CHR '' '') @ '']''
           \<and> length (replicate done (CHR ''='') @ ''>'' @ replicate (23 - done) (CHR '' '')) = 24) \<and>
        (p = 100 \<longrightarrow> barArrow p = ''['' @ replicate 24 (CHR ''='') @ '']'')))
     \<and> barArrow 0 = ''[>'' @ replicate 23 (CHR '' '') @ '']''
     \<and> barArrow 100 = ''['' @ replicate 24 (CHR ''='') @ '']''"
proof -
  have ends: "barArrow 0 = ''[>'' @ replicate 23 (CHR '' '') @ '']''"
    "barArrow 100 = ''['' @ replicate 24 (CHR ''='') @ '']''"
    by (simp_all add: barArrow_in_range)
  have mid: "(nat (p * 24 div 100) = 24 \<longleftrightarrow> p = 100)" if "0 \<le> p" "p \<le> 100"
    using that by (cases "p = 100") (simp, linarith)
  have lt: "nat (p * 24 div 100) \<le> 23" if "0 \<le> p" "p < 100"
    using that by linarith
  show ?thesis
    using ends mid lt by (auto simp: Let_def barArrow_in_range)
qed

theorem barArrow_render_witness:
  "barArrow 50 = ''[============>           ]'' \<and> barArrow 0 = ''[>                       ]''
   \<and> barArrow 100 = ''[========================]''"
  using barArrow_render [of 50] by (simp add: eval_nat_numeral)

text \<open>
  Claim C10.  The renderer is total on all integers: the result always has 26 characters
  (\<open>[\<close>, a bar of width 24, \<open>]\<close>); a percentage below 0 renders as 0 and a percentage above
  100 renders as 100.
\<close>

theorem barArrow_total_clamped:
  "length (barArrow pct) = 26
   \<and> hd (barArrow pct) = CHR ''['' \<and> last (barArrow pct) = CHR '']''
   \<and> (pct < 0 \<longrightarrow> barArrow pct = barArrow 0)
   \<and> (pct > 100 \<longrightarrow> barArrow pct = barArrow 100)"
proof -
  define q :: int where "q = (if pct < 0 then 0 else if pct > 100 then 100 else pct)"
  have q: "0 \<le> q" "q \<le> 100" by (simp_all add: q_def)
  have eq: "barArrow pct = barArrow q"
    by (simp add: q_def barArrow_clamp_low barArrow_clamp_high)
  have "length (barArrow q) = 26"
    by (rule barArrow_length_in_range [OF q])
  moreover have "hd (barArrow q) = CHR ''[''" "last (barArrow q) = CHR '']''"
    by (simp_all add: barArrow_in_range [OF q])
  ultimately show ?thesis
    by (simp add: eq barArrow_clamp_low barArrow_clamp_high) (simp add: q_def)
qed

theorem barArrow_total_clamped_witness:
  "length (barArrow (- 7)) = 26 \<and> barArrow (- 7) = barArrow 0
   \<and> length (barArrow 250) = 26 \<and> barArrow 250 = barArrow 100"
  using barArrow_total_clamped [of "- 7"] barArrow_total_clamped [of 250] by fastforce

section \<open>Properties of the spinner controller\<close>

lemma pauseLoop_active:
  "active (pauseLoop ss st a) \<longleftrightarrow> active (st a) \<and> Some a \<notin> set ss"
  by (induction ss arbitrary: st) (auto simp: spinner_Stop_def split: option.splits)

lemma resumeLoop_active:
  "active (resumeLoop ss st a) \<longleftrightarrow> active (st a) \<or> Some a \<in> set ss"
  by (induction ss arbitrary: st) (auto simp: spinner_Start_def split: option.splits)

lemma pauseLoop_other: "Some a \<notin> set ss \<Longrightarrow> pauseLoop ss st a = st a"
  by (induction ss arbitrary: st) (auto simp: spinner_Stop_def split: option.splits)

lemma resumeLoop_other: "Some a \<notin> set ss \<Longrightarrow> resumeLoop ss st a = st a"
  by (induction ss arbitrary: st) (auto simp: spinner_Start_def split: option.splits)

lemma pausedHandles_Pause:
  "pausedHandles c (snd (PauseActiveSpinners c)) =
     {a. Some a \<in> set (activeSpinners c) \<and> active (store c a)}"
  by (auto simp: pausedHandles_def PauseActiveSpinners_def pauseLoop_active)

lemma card_Some_handles:
  assumes "distinct ss" and "None \<notin> set ss"
  shows "card {a. Some a \<in> set ss} = length ss"
proof -
  have "Some ` {a. Some a \<in> set ss} = set ss"
    using assms(2) by (auto simp: image_iff) (metis not_None_eq)
  then have "card (Some ` {a. Some a \<in> set ss}) = length ss"
    using assms(1) by (simp add: distinct_card)
  then show ?thesis by (simp add: card_image)
qed

text \<open>
  Claim C9 (as amended).  In every state of the controller, \<open>PauseActiveSpinners\<close>
  leaves the active set as it is, halts exactly the running handles of the set, and
  returns the number of handles in the active set; that number is the number of handles it
  paused when the entries of the set are distinct running handles.
  \<open>ResumePausedSpinners\<close> leaves the active set as it is and starts exactly the handles
  of the set that are not running.  A pause followed at once by a resume leaves the active
  set unchanged, starts exactly the handles of the set, and leaves every spinner outside the
  set (one that was stopped and removed) as it was.
\<close>

theorem pause_resume_spinners:
  "activeSpinners (snd (PauseActiveSpinners c)) = activeSpinners c
   \<and> fst (PauseActiveSpinners c) = int (length (activeSpinners c))
   \<and> (\<forall>a. active (store (snd (PauseActiveSpinners c)) a)
            \<longleftrightarrow> active (store c a) \<and> Some a \<notin> set (activeSpinners c))
   \<and> (distinct (activeSpinners c)
        \<and> (\<forall>s \<in> set (activeSpinners c). \<exists>a. s = Some a \<and> active (store c a))
      \<longrightarrow> fst (PauseActiveSpinners c) = int (card (pausedHandles c (snd (PauseActiveSpinners c)))))
   \<and> activeSpinners (ResumePausedSpinners c) = activeSpinners c
   \<and> startedHandles c (ResumePausedSpinners c)
        = {a. Some a \<in> set (activeSpinners c) \<and> \<not> active (store c a)}
   \<and> (\<forall>a. active (store (ResumePausedSpinners c) a)
            \<longleftrightarrow> active (store c a) \<or> Some a \<in> set (activeSpinners c))
   \<and> activeSpinners (ResumePausedSpinners (snd (PauseActiveSpinners c))) = activeSpinners c
   \<and> startedHandles (snd (PauseActiveSpinners c)) (ResumePausedSpinners (snd (PauseActiveSpinners c)))
        = {a. Some a \<in> set (activeSpinners c)}
   \<and> (\<forall>a. Some a \<notin> set (activeSpinners c) \<longrightarrow>
          store (ResumePausedSpinners (snd (PauseActiveSpinners c))) a = store c a)"
proof -
  let ?p = "snd (PauseActiveSpinners c)"
  have p_act: "activeSpinners ?p = activeSpinners c"
    by (simp add: PauseActiveSpinners_def)
  have p_store: "store ?p = pauseLoop (activeSpinners c) (store c)"
    by (simp add: PauseActiveSpinners_def)
  have p_fst: "fst (PauseActiveSpinners c) = int (length (activeSpinners c))"
    by (simp add: PauseActiveSpinners_def)
  have r_act: "activeSpinners (ResumePausedSpinners d) = activeSpinners d" for d
    by (simp add: ResumePausedSpinners_def)
  have r_store: "store (ResumePausedSpinners d) = resumeLoop (activeSpinners d) (store d)" for d
    by (simp add: ResumePausedSpinners_def)
  have count: "fst (PauseActiveSpinners c) = int (card (pausedHandles c ?p))"
    if d: "distinct (activeSpinners c)"
      and run: "\<forall>s \<in> set (activeSpinners c). \<exists>a. s = Some a \<and> active (store c a)"
  proof -
    have "None \<notin> set (activeSpinners c)" using run by auto
    moreover have "pausedHandles c ?p = {a. Some a \<in> set (activeSpinners c)}"
      using run by (auto simp: pausedHandles_Pause)
    ultimately show ?thesis
      using d by (simp add: p_fst card_Some_handles)
  qed
  have started1: "startedHandles c (ResumePausedSpinners c)
        = {a. Some a \<in> set (activeSpinners c) \<and> \<not> active (store c a)}"
    by (auto simp: startedHandles_def r_store resumeLoop_active)
  have started2: "startedHandles ?p (ResumePausedSpinners ?p) = {a. Some a \<in> set (activeSpinners c)}"
    by (auto simp: startedHandles_def r_store p_act p_store resumeLoop_active pauseLoop_active)
  have untouched: "store (ResumePausedSpinners ?p) a = store c a"
    if "Some a \<notin> set (activeSpinners c)" for a
    using that by (simp add: r_store p_act p_store resumeLoop_other pauseLoop_other)
  show ?thesis
    using p_act p_fst count started1 started2 untouched
    by (simp add: r_act r_store p_store pauseLoop_active resumeLoop_active)
qed


theorem pause_resume_spinners_witness:
  "fst (PauseActiveSpinners oneSpinner) = 1
   \<and> card (pausedHandles oneSpinner (snd (PauseActiveSpinners oneSpinner))) = 1
   \<and> activeSpinners (ResumePausedSpinners (snd (PauseActiveSpinners oneSpinner))) = [Some 0]
   \<and> startedHandles (snd (PauseActiveSpinners oneSpinner))
         (ResumePausedSpinners (snd (PauseActiveSpinners oneSpinner))) = {0}"
  using pause_resume_spinners [of oneSpinner]
  by (simp add: oneSpinner_def StartSpinner_def initialConfig_def spinner_Start_def Let_def)

text \<open>
  The claim as stated fails on the returned count: in the state reached by starting one
  spinner and pausing once, a second \<open>PauseActiveSpinners\<close> returns 1 although it pauses
  no handle.
\<close>

theorem pause_count_counterexample:
  "fst (PauseActiveSpinners oncePaused) = 1
   \<and> pausedHandles oncePaused (snd (PauseActiveSpinners oncePaused)) = {}
   \<and> fst (PauseActiveSpinners oncePaused)
       \<noteq> int (card (pausedHandles oncePaused (snd (PauseActiveSpinners oncePaused))))"
proof -
  have a: "fst (PauseActiveSpinners oncePaused) = 1"
    by (simp add: oncePaused_def oneSpinner_def PauseActiveSpinners_def StartSpinner_def
        initialConfig_def Let_def)
  have b: "pausedHandles oncePaused (snd (PauseActiveSpinners oncePaused)) = {}"
    by (auto simp: oncePaused_def oneSpinner_def PauseActiveSpinners_def StartSpinner_def
        initialConfig_def pausedHandles_def spinner_Start_def spinner_Stop_def Let_def)
  show ?thesis using a by (simp add: b)
qed

section \<open>Properties of the command handler\<close>

lemma Contains_byte: "Contains s [c] \<longleftrightarrow> c \<in> set s"
  by (induction s) auto

lemma providedLoop_iff:
  "providedLoop required args provided \<longleftrightarrow>
     provided \<or> (\<exists>a \<in> set args. CHR ''='' \<in> set a \<and> prefix required a)"
  by (induction args arbitrary: provided) (auto simp: Contains_byte HasPrefix_def)

lemma ReplaceAll_eq_empty_idem: "ReplaceAll_eq_empty (ReplaceAll_eq_empty r) = ReplaceAll_eq_empty r"
  by (simp add: ReplaceAll_eq_empty_def)

lemma missingLoop_eq:
  "missingLoop rs apiArgs acc =
     acc @ filter (\<lambda>n. \<not> (\<exists>a \<in> set apiArgs. CHR ''='' \<in> set a \<and> prefix n a))
             (map ReplaceAll_eq_empty rs)"
  by (induction rs arbitrary: acc)
     (simp_all add: Let_def providedLoop_iff ReplaceAll_eq_empty_idem)

lemma missingArgs_eq:
  "missingArgs required apiArgs =
     filter (\<lambda>n. \<not> (\<exists>a \<in> set apiArgs. CHR ''='' \<in> set a \<and> prefix n a))
       (map ReplaceAll_eq_empty required)"
  by (simp add: missingArgs_def missingLoop_eq)

lemma dispatch_missing:
  "missingArgs (RequiredArgs api) apiArgs \<noteq> [] \<Longrightarrow>
   dispatch hasShell invoke api apiArgs =
     ([Stdout (pileOfPoo @ '' Missing required parameters:  ''
               @ Join (missingArgs (RequiredArgs api) apiArgs) '', '' @ newline)], None)"
  by (simp add: dispatch_def Let_def)

lemma dispatch_request:
  "missingArgs (RequiredArgs api) apiArgs = [] \<Longrightarrow>
   \<exists>rest. fst (dispatch hasShell invoke api apiArgs)
            = APIRequest (Name api) apiArgs (Async api) # rest"
  by (auto simp: dispatch_def Let_def split: prod.splits option.splits)

lemma resolve_merge:
  assumes "cache (ToLower (args ! 0)) = None" and "2 \<le> length args"
  shows "resolve cache args = (ToLower (args ! 0 @ args ! 1), drop 2 args)"
proof -
  obtain a b rest where args: "args = a # b # rest"
    using assms(2) by (cases args; cases "tl args") auto
  show ?thesis
    using assms(1) by (simp add: resolve_def args)
qed

text \<open>
  Claim C1.  For every token list: when the lower-cased first token is not registered and at
  least two tokens were supplied, the resolver looks up the lower-cased concatenation of the
  first two tokens (no separator) and keeps the tokens after the first two as arguments.  When
  that name is registered (and the help flag \<open>-h\<close>, which the handler serves before
  dispatching, is not among the tokens), the handler dispatches that registry entry with
  exactly those arguments: they are what is validated and what the API request receives.
  With the help flag among the tokens, the help command is called for the same resolved name.
\<close>

theorem two_token_resolution:
  "cache (ToLower (args ! 0)) = None \<and> 2 \<le> length args \<longrightarrow>
     resolve cache args = (ToLower (args ! 0 @ args ! 1), drop 2 args)
     \<and> (\<forall>api. cache (ToLower (args ! 0 @ args ! 1)) = Some api \<and> ''-h'' \<notin> set args \<longrightarrow>
          Handle cache hasShell invoke help args = dispatch hasShell invoke api (drop 2 args)
          \<and> (missingArgs (RequiredArgs api) (drop 2 args) = [] \<longrightarrow>
               (\<exists>rest. fst (Handle cache hasShell invoke help args)
                         = APIRequest (Name api) (drop 2 args) (Async api) # rest)))
     \<and> (''-h'' \<in> set args \<longrightarrow>
          fst (Handle cache hasShell invoke help args)
            = [HelpHandle (args[0 := ToLower (args ! 0 @ args ! 1)])])"
proof (intro impI, elim conjE)
  assume unreg: "cache (ToLower (args ! 0)) = None" and two: "2 \<le> length args"
  have r: "resolve cache args = (ToLower (args ! 0 @ args ! 1), drop 2 args)"
    using unreg two by (rule resolve_merge)
  have h: "Handle cache hasShell invoke help args = dispatch hasShell invoke api (drop 2 args)"
    if "cache (ToLower (args ! 0 @ args ! 1)) = Some api" and "''-h'' \<notin> set args" for api
  proof -
    from two have "args \<noteq> []" by auto
    with that show ?thesis by (simp add: Handle_def r)
  qed
  have hlp: "fst (Handle cache hasShell invoke help args)
            = [HelpHandle (args[0 := ToLower (args ! 0 @ args ! 1)])]"
    if "''-h'' \<in> set args"
  proof -
    from two have "args \<noteq> []" by auto
    with that show ?thesis by (simp add: Handle_def r)
  qed
  show "resolve cache args = (ToLower (args ! 0 @ args ! 1), drop 2 args)
     \<and> (\<forall>api. cache (ToLower (args ! 0 @ args ! 1)) = Some api \<and> ''-h'' \<notin> set args \<longrightarrow>
          Handle cache hasShell invoke help args = dispatch hasShell invoke api (drop 2 args)
          \<and> (missingArgs (RequiredArgs api) (drop 2 args) = [] \<longrightarrow>
               (\<exists>rest. fst (Handle cache hasShell invoke help args)
                         = APIRequest (Name api) (drop 2 args) (Async api) # rest)))
     \<and> (''-h'' \<in> set args \<longrightarrow>
          fst (Handle cache hasShell invoke help args)
            = [HelpHandle (args[0 := ToLower (args ! 0 @ args ! 1)])])"
    using r h hlp dispatch_request by simp
qed

lemma sample_lower: "ToLower ''List'' = ''list''"
  by code_simp

theorem two_token_resolution_witness:
  "sampleCache (ToLower ([''List'', ''Users'', ''filter=id''] ! 0)) = None
   \<and> 2 \<le> length [''List'', ''Users'', ''filter=id'']
   \<and> resolve sampleCache [''List'', ''Users'', ''filter=id''] = (''listusers'', [''filter=id''])
   \<and> fst (Handle sampleCache True sampleInvoke (\<lambda>_. None) [''List'', ''Users'', ''filter=id''])
       = [APIRequest ''listUsers'' [''filter=id''] False,
          PrintResult [(''getuploadparams'', GMap [])] [''id''] []]"
proof -
  let ?args = "[''List'', ''Users'', ''filter=id'']"
  let ?api = "\<lparr>Name = ''listUsers'', RequiredArgs = [], Async = False\<rparr>"
  have hyp: "sampleCache (ToLower (?args ! 0)) = None \<and> 2 \<le> length ?args"
    by (simp add: sample_lower sampleCache_def)
  have low: "ToLower (?args ! 0 @ ?args ! 1) = ''listusers''"
    by code_simp
  then have reg: "sampleCache (ToLower (?args ! 0 @ ?args ! 1)) = Some ?api"
    by (simp add: sampleCache_def)
  have noh: "''-h'' \<notin> set ?args" by simp
  have run: "fst (dispatch True sampleInvoke ?api [''filter=id''])
       = [APIRequest ''listUsers'' [''filter=id''] False,
          PrintResult [(''getuploadparams'', GMap [])] [''id''] []]"
    by code_simp
  from two_token_resolution [of sampleCache ?args True sampleInvoke "\<lambda>_. None"] hyp reg noh
  have "resolve sampleCache ?args = (ToLower (?args ! 0 @ ?args ! 1), drop 2 ?args)"
    and "Handle sampleCache True sampleInvoke (\<lambda>_. None) ?args = dispatch True sampleInvoke ?api (drop 2 ?args)"
    by blast+
  then show ?thesis
    using hyp run low by simp
qed

text \<open>
  Claim C2 (as amended).  The name of a required argument is the registry token with every
  \<open>=\<close> deleted, which for a token \<open>name=\<close> is the token without its trailing \<open>=\<close>.
  A name is reported missing, in registry order, if and only if no remaining token both
  contains \<open>=\<close> and starts with the name.  The match is a prefix match: \<open>idx=5\<close> satisfies
  \<open>id\<close>; for the required tokens \<open>id=\<close> and \<open>name=\<close> and the argument \<open>id=5\<close> exactly
  \<open>name\<close> is missing.  When a name is missing, the handler prints the missing names and
  returns without calling the API.
\<close>

theorem required_arguments:
  "missingArgs required apiArgs =
     filter (\<lambda>n. \<not> (\<exists>a \<in> set apiArgs. CHR ''='' \<in> set a \<and> prefix n a))
       (map ReplaceAll_eq_empty required)
   \<and> (CHR ''='' \<notin> set name \<longrightarrow> ReplaceAll_eq_empty (name @ ''='') = name)
   \<and> missingArgs [''id=''] [''idx=5''] = []
   \<and> missingArgs [''id='', ''name=''] [''id=5''] = [''name'']
   \<and> (missingArgs (RequiredArgs api) apiArgs \<noteq> [] \<longrightarrow>
        dispatch hasShell invoke api apiArgs =
          ([Stdout (pileOfPoo @ '' Missing required parameters:  ''
                    @ Join (missingArgs (RequiredArgs api) apiArgs) '', '' @ newline)], None))"
proof -
  have strip: "ReplaceAll_eq_empty (name @ ''='') = name" if "CHR ''='' \<notin> set name"
    using that by (auto simp: ReplaceAll_eq_empty_def filter_id_conv)
  have ex1: "missingArgs [''id=''] [''idx=5''] = []"
    by (simp add: missingArgs_eq ReplaceAll_eq_empty_def)
  have ex2: "missingArgs [''id='', ''name=''] [''id=5''] = [''name'']"
    by (simp add: missingArgs_eq ReplaceAll_eq_empty_def)
  show ?thesis
    using strip ex1 ex2 dispatch_missing missingArgs_eq by blast
qed

theorem required_arguments_witness:
  "missingArgs [''id='', ''name=''] [''id=5''] = [''name'']
   \<and> dispatch True sampleInvoke \<lparr>Name = ''x'', RequiredArgs = [''id='', ''name=''], Async = False\<rparr> [''id=5'']
       = ([Stdout (pileOfPoo @ '' Missing required parameters:  name'' @ newline)], None)
   \<and> ReplaceAll_eq_empty ''name='' = ''name''"
  using required_arguments [of "[''id='', ''name='']" "[''id=5'']" "''name''"
      "\<lparr>Name = ''x'', RequiredArgs = [''id='', ''name=''], Async = False\<rparr>" True sampleInvoke]
  by (simp add: ReplaceAll_eq_empty_def)

text \<open>
  The claim as stated takes the name to be the token without its trailing \<open>=\<close>.  For the
  registry token \<open>a=b=\<close> and the argument \<open>a=b=1\<close> that reading reports nothing missing,
  while the handler reports \<open>ab\<close>.
\<close>

theorem required_name_counterexample:
  "missingArgs [''a=b=''] [''a=b=1''] = [''ab'']
   \<and> spec_missingArgs [''a=b=''] [''a=b=1''] = []
   \<and> missingArgs [''a=b=''] [''a=b=1''] \<noteq> spec_missingArgs [''a=b=''] [''a=b=1'']"
  by (simp add: missingArgs_eq spec_missingArgs_def spec_requiredName_def ReplaceAll_eq_empty_def)

text \<open>
  Claim C6.  The names for which the upload prompt is called are \<open>getuploadparamsforiso\<close>,
  \<open>getuploadparamsforvolume\<close> and \<open>getuploadparamsfotemplate\<close>; the third literal lacks
  the \<open>r\<close> of \<open>for\<close>.  In an interactive session with a non-empty response the handler
  therefore does not call the upload prompt for \<open>getUploadParamsForTemplate\<close>, and the
  guard of \<open>PromptAndUploadFileIfNeeded\<close> rejects that name, while both accept
  \<open>getUploadParamsForIso\<close>.
\<close>

theorem template_upload_not_prompted:
  "Handle sampleCache True sampleInvoke (\<lambda>_. None) [''getUploadParamsForTemplate'', ''name=x'', ''zoneid=1'']
     = ([APIRequest ''getUploadParamsForTemplate'' [''name=x'', ''zoneid=1''] False,
         PrintResult [(''getuploadparams'', GMap [])] [] []], None)
   \<and> \<not> promptGuard True ''getUploadParamsForTemplate''
   \<and> Handle sampleCache True sampleInvoke (\<lambda>_. None) [''getUploadParamsForIso'', ''name=x'', ''zoneid=1'']
     = ([APIRequest ''getUploadParamsForIso'' [''name=x'', ''zoneid=1''] False,
         PrintResult [(''getuploadparams'', GMap [])] [] [],
         PromptForFileUpload ''getuploadparamsforiso'' [(''getuploadparams'', GMap [])]], None)
   \<and> promptGuard True ''getUploadParamsForIso''"
  by code_simp

section \<open>Properties of the progress percentage\<close>

lemma roundHalfEven_near: "\<bar>of_int (roundHalfEven x) - x\<bar> \<le> 1 / 2"
  unfolding roundHalfEven_def Let_def by (auto simp: abs_if) linarith+

lemma roundHalfEven_int: "roundHalfEven (of_int n) = n"
  by (simp add: roundHalfEven_def)

lemma roundHalfEven_ge:
  assumes "of_int n \<le> x"
  shows "n \<le> roundHalfEven x"
proof -
  have "\<lfloor>x\<rfloor> \<le> roundHalfEven x"
    by (simp add: roundHalfEven_def Let_def)
  moreover have "n \<le> \<lfloor>x\<rfloor>"
    using assms by (simp add: le_floor_iff)
  ultimately show ?thesis by linarith
qed


lemma bitlen_rat_bounds:
  assumes "0 < a"
  shows "2 powi (bitlen a - 1) \<le> (of_int a :: rat)" and "(of_int a :: rat) < 2 powi (bitlen a)"
proof -
  have pos: "1 \<le> bitlen a"
    using assms bitlen_nonneg [of a] bitlen_eq_zero_iff [of a] by linarith
  from bitlen_bounds [OF assms]
  have lo: "2 ^ nat (bitlen a - 1) \<le> a" and hi: "a < 2 ^ nat (bitlen a)" by simp_all
  have "(of_int (2 ^ nat (bitlen a - 1)) :: rat) \<le> of_int a"
    using lo by (simp only: of_int_le_iff)
  then show "2 powi (bitlen a - 1) \<le> (of_int a :: rat)"
    using pos by (simp add: power_int_nonneg_exp)
  have "(of_int a :: rat) < of_int (2 ^ nat (bitlen a))"
    using hi by (simp only: of_int_less_iff)
  then show "(of_int a :: rat) < 2 powi (bitlen a)"
    using pos by (simp add: power_int_nonneg_exp)
qed

lemma ilog2_bounds:
  assumes "0 < x"
  shows "2 powi (ilog2 x) \<le> x" and "x < 2 powi (ilog2 x + 1)"
proof -
  obtain a b where q: "quotient_of x = (a, b)" by (cases "quotient_of x")
  then have b: "0 < b" and x: "x = of_int a / of_int b"
    by (simp_all add: quotient_of_denom_pos quotient_of_div)
  with assms have a: "0 < a"
    by (simp add: zero_less_divide_iff)
  define d where "d = bitlen a - bitlen b"
  have "(2::rat) powi (bitlen a - 1) / 2 powi (bitlen b) < of_int a / of_int b"
    using bitlen_rat_bounds [OF a] bitlen_rat_bounds [OF b] b
    by (intro frac_less2) simp_all
  moreover have "(2::rat) powi (bitlen a - 1) / 2 powi (bitlen b) = 2 powi (d - 1)"
    by (simp add: d_def power_int_diff [symmetric] algebra_simps)
  ultimately have lower: "2 powi (d - 1) < x" by (simp add: x)
  have "of_int a / of_int b < (2::rat) powi (bitlen a) / 2 powi (bitlen b - 1)"
    using bitlen_rat_bounds [OF a] bitlen_rat_bounds [OF b] a
    by (intro frac_less) simp_all
  moreover have "(2::rat) powi (bitlen a) / 2 powi (bitlen b - 1) = 2 powi (d + 1)"
    by (simp add: d_def power_int_diff [symmetric] algebra_simps)
  ultimately have upper: "x < 2 powi (d + 1)" by (simp add: x)
  have il: "ilog2 x = (if 2 powi d \<le> x then d else d - 1)"
    by (simp add: ilog2_def q d_def Let_def)
  show "2 powi (ilog2 x) \<le> x"
    using lower by (simp add: il)
  show "x < 2 powi (ilog2 x + 1)"
    using upper by (simp add: il)
qed

lemma ilog2_less:
  assumes "0 < x" and "x < 2 powi n"
  shows "ilog2 x < n"
proof (rule ccontr)
  assume "\<not> ilog2 x < n"
  then have "(2::rat) powi n \<le> 2 powi (ilog2 x)"
    by (intro power_int_increasing) simp_all
  with ilog2_bounds(1) [OF assms(1)] assms(2) show False by linarith
qed


lemma float64_pos:
  assumes "0 < x"
  shows "float64 x = of_int (roundHalfEven (x / 2 powi (ilog2 x - 52))) * 2 powi (ilog2 x - 52)"
  using assms by (simp add: float64_def Let_def)

lemma float64_exact_int:
  assumes "0 \<le> n" and "n < 2 ^ 53"
  shows "float64 (of_int n) = of_int n"
proof (cases "n = 0")
  case True
  then show ?thesis by (simp add: float64_def)
next
  case False
  with assms have pos: "0 < (of_int n :: rat)" by simp
  have "(of_int n :: rat) < of_int (2 ^ 53)"
    using assms(2) by (simp only: of_int_less_iff)
  then have "(of_int n :: rat) < 2 powi 53" by simp
  from ilog2_less [OF pos this] have le: "ilog2 (of_int n) - 52 \<le> 0" by simp
  define t where "t = nat (52 - ilog2 (of_int n))"
  have e: "ilog2 (of_int n) - 52 = - int t"
    using le by (simp add: t_def)
  have scaled: "(of_int n :: rat) / 2 powi (- int t) = of_int (n * 2 ^ t)"
    by (simp add: power_int_minus field_simps)
  show ?thesis
    unfolding float64_pos [OF pos] e scaled roundHalfEven_int
    by (simp add: power_int_minus field_simps)
qed

lemma float64_quotient_floor:
  assumes a: "0 \<le> a" and b: "0 < b" and small: "a < 2 ^ 53"
  shows "\<lfloor>float64 (of_int a / of_int b)\<rfloor> = a div b"
proof (cases "a = 0")
  case True
  then show ?thesis by (simp add: float64_def)
next
  case False
  with a have apos: "0 < a" by simp
  define q :: rat where "q = of_int a / of_int b"
  have qpos: "0 < q" using apos b by (simp add: q_def)
  define f where "f = a div b"
  have ra: "(of_int a :: rat) < 2 ^ 53"
  proof -
    have "(of_int a :: rat) < of_int (2 ^ 53)" using small by (simp only: of_int_less_iff)
    then show ?thesis by simp
  qed
  have q_le_a: "q \<le> of_int a"
  proof -
    have "(1::rat) \<le> of_int b" using b by simp
    then have "of_int a / of_int b \<le> (of_int a :: rat) / 1"
      using apos by (intro divide_left_mono) simp_all
    then show ?thesis by (simp add: q_def)
  qed
  have "q < 2 powi 53" using q_le_a ra by simp
  from ilog2_less [OF qpos this] have le: "ilog2 q \<le> 52" by simp
  define t where "t = nat (52 - ilog2 q)"
  define P :: rat where "P = 2 ^ t"
  have Ppos: "0 < P" by (simp add: P_def)
  have e: "ilog2 q - 52 = - int t" using le by (simp add: t_def)
  have pw: "(2::rat) powi (- int t) = 1 / P"
    by (simp add: P_def power_int_minus field_simps)
  define r where "r = roundHalfEven (q * P)"
  have fl: "float64 q = of_int r / P"
    unfolding float64_pos [OF qpos] e pw r_def by simp
  \<comment> \<open>the scaled quotient is at least \<open>2 ^ 52\<close>\<close>
  have "(2::rat) powi (ilog2 q) * P = 2 powi (ilog2 q) * 2 powi (int t)"
    by (simp add: P_def)
  also have "\<dots> = 2 powi (ilog2 q + int t)"
    by (simp add: power_int_add)
  also have "\<dots> = 2 ^ 52"
    using le by (simp add: t_def)
  finally have LP: "(2::rat) powi (ilog2 q) * P = 2 ^ 52" .
  have "2 powi (ilog2 q) * P \<le> q * P"
    using ilog2_bounds(1) [OF qpos] Ppos by (intro mult_right_mono) simp_all
  then have big: "2 ^ 52 \<le> q * P" by (simp add: LP)
  \<comment> \<open>hence the grid is finer than \<open>2 / b\<close>\<close>
  have half: "1 / 2 < P / of_int b"
  proof -
    have "q * P = of_int a * (P / of_int b)" by (simp add: q_def)
    with big have "2 ^ 52 \<le> of_int a * (P / of_int b)" by simp
    moreover have "of_int a * (P / of_int b) \<le> 2 ^ 53 * (P / of_int b)"
      using ra Ppos b by (intro mult_right_mono) simp_all
    ultimately have "(2::rat) ^ 52 \<le> 2 ^ 53 * (P / of_int b)" by linarith
    moreover have "\<not> P / of_int b \<le> 1 / 2 \<or> (of_int a :: rat) * (P / of_int b) < 2 ^ 53 * (1 / 2)"
    proof (cases "P / of_int b \<le> 1 / 2")
      case True
      have "0 < P / of_int b" using Ppos b by simp
      then have "of_int a * (P / of_int b) < 2 ^ 53 * (P / of_int b)"
        using ra by (intro mult_strict_right_mono) simp_all
      also have "\<dots> \<le> 2 ^ 53 * (1 / 2)"
        using True by (intro mult_left_mono) simp_all
      finally show ?thesis by simp
    next
      case False
      then show ?thesis by simp
    qed
    ultimately show ?thesis
      using \<open>2 ^ 52 \<le> of_int a * (P / of_int b)\<close> by auto
  qed
  \<comment> \<open>lower bound\<close>
  have fq: "of_int f \<le> q"
  proof -
    have "0 \<le> a mod b" using b by simp
    moreover have "a = f * b + a mod b" by (simp add: f_def)
    ultimately have "f * b \<le> a" by linarith
    then have "(of_int (f * b) :: rat) \<le> of_int a" by (simp only: of_int_le_iff)
    then show ?thesis using b by (simp add: q_def field_simps)
  qed
  have "(of_int (f * 2 ^ t) :: rat) \<le> q * P"
    using fq Ppos by (simp add: P_def)
  from roundHalfEven_ge [OF this] have lo_int: "f * 2 ^ t \<le> r" by (simp add: r_def)
  have lo: "of_int f \<le> float64 q"
  proof -
    have "(of_int (f * 2 ^ t) :: rat) \<le> of_int r" using lo_int by (simp only: of_int_le_iff)
    then have "of_int f * P \<le> of_int r" by (simp add: P_def)
    then show ?thesis using Ppos by (simp add: fl field_simps)
  qed
  \<comment> \<open>upper bound\<close>
  have qf: "q \<le> of_int f + 1 - 1 / of_int b"
  proof -
    have "a mod b \<le> b - 1" using b pos_mod_bound [of b a] by simp
    moreover have "a = f * b + a mod b" by (simp add: f_def)
    ultimately have "a \<le> f * b + b - 1" by linarith
    then have "(of_int a :: rat) \<le> of_int (f * b + b - 1)" by (simp only: of_int_le_iff)
    then show ?thesis using b by (simp add: q_def field_simps)
  qed
  have "q * P \<le> (of_int f + 1 - 1 / of_int b) * P"
    using qf Ppos by (intro mult_right_mono) simp_all
  also have "\<dots> = (of_int f + 1) * P - P / of_int b" by (simp add: algebra_simps)
  finally have "q * P + 1 / 2 < (of_int f + 1) * P" using half by linarith
  moreover have "of_int r \<le> q * P + 1 / 2"
    using roundHalfEven_near [of "q * P"] unfolding r_def by linarith
  ultimately have "of_int r < (of_int f + 1) * P" by linarith
  then have hi: "float64 q < of_int f + 1"
    using Ppos by (simp add: fl field_simps)
  have "\<lfloor>float64 q\<rfloor> = f"
    using lo hi by (simp add: floor_unique)
  then show ?thesis by (simp add: q_def f_def)
qed


lemma progressPct_floor:
  assumes "0 \<le> k" and "0 < S" and "100 * k < 2 ^ 53" and "S < 2 ^ 53"
  shows "progressPct k S = k * 100 div S"
proof -
  have k53: "k < 2 ^ 53" using assms(1,3) by linarith
  have "float64 (of_int k) = of_int k"
    using assms(1) k53 by (rule float64_exact_int)
  moreover have "float64 (of_int (k * 100)) = of_int (k * 100)"
    using assms(1,3) by (intro float64_exact_int) simp_all
  moreover have "float64 (of_int S) = of_int S"
    using assms(2,4) by (intro float64_exact_int) simp_all
  ultimately have pct: "progressPct k S = int_of_float64 (float64 (of_int (k * 100) / of_int S))"
    by (simp add: progressPct_def)
  have fl: "\<lfloor>float64 (of_int (k * 100) / of_int S)\<rfloor> = k * 100 div S"
    using assms by (intro float64_quotient_floor) simp_all
  have "0 \<le> k * 100 div S"
    using assms(1,2) by (simp add: pos_imp_zdiv_nonneg_iff)
  with fl have "0 \<le> \<lfloor>float64 (of_int (k * 100) / of_int S)\<rfloor>" by simp
  then have "0 \<le> float64 (of_int (k * 100) / of_int S)" by (simp only: zero_le_floor)
  then show ?thesis using fl by (simp add: pct int_of_float64_def)
qed

lemma forwarded_floor:
  assumes "0 < S" and "100 * S < 2 ^ 53" and "0 \<le> k" and "\<forall>n \<in> set ns. 0 \<le> n"
    and "k + sum_list ns \<le> S"
  shows "forwarded \<lparr>pb_read = k, pb_total = S\<rparr> ns = map (\<lambda>j. j * 100 div S) (cumulative k ns)"
  using assms(3-5)
proof (induction ns arbitrary: k)
  case Nil
  then show ?case by simp
next
  case (Cons n ns)
  have n0: "0 \<le> n" and rest: "\<forall>n \<in> set ns. 0 \<le> n" using Cons.prems(2) by simp_all
  have sum0: "0 \<le> sum_list ns" using rest by (simp add: sum_list_nonneg)
  have kn: "0 \<le> k + n" "k + n + sum_list ns \<le> S" "k + n \<le> S"
    using Cons.prems n0 sum0 by simp_all
  have IH: "forwarded \<lparr>pb_read = k + n, pb_total = S\<rparr> ns
            = map (\<lambda>j. j * 100 div S) (cumulative (k + n) ns)"
    using kn rest by (intro Cons.IH) simp_all
  have pct: "progressPct (k + n) S = (k + n) * 100 div S"
    using assms(1,2) kn by (intro progressPct_floor) simp_all
  show ?case
  proof (cases "n > 0")
    case True
    then show ?thesis by (simp add: progressBody_Read_def Let_def IH pct)
  next
    case False
    with n0 have "n = 0" by simp
    then show ?thesis using IH by (simp add: progressBody_Read_def)
  qed
qed

lemma cumulative_bounds:
  assumes "\<forall>n \<in> set ns. 0 \<le> n"
  shows "\<forall>j \<in> set (cumulative k ns). k < j \<and> j \<le> k + sum_list ns"
  using assms
proof (induction ns arbitrary: k)
  case Nil
  then show ?case by simp
next
  case (Cons n ns)
  then have n0: "0 \<le> n" and rest: "\<forall>n \<in> set ns. 0 \<le> n" by simp_all
  have sum0: "0 \<le> sum_list ns" using rest by (simp add: sum_list_nonneg)
  from Cons.IH [OF rest, of "k + n"]
  have "\<forall>j \<in> set (cumulative (k + n) ns). k + n < j \<and> j \<le> k + n + sum_list ns" .
  then show ?case using n0 sum0 by (auto simp: add.assoc)
qed

lemma cumulative_sorted:
  assumes "\<forall>n \<in> set ns. 0 \<le> n"
  shows "sorted (cumulative k ns)"
  using assms
proof (induction ns arbitrary: k)
  case Nil
  then show ?case by simp
next
  case (Cons n ns)
  then have n0: "0 \<le> n" and rest: "\<forall>n \<in> set ns. 0 \<le> n" by simp_all
  have "\<forall>j \<in> set (cumulative (k + n) ns). k + n < j"
    using cumulative_bounds [OF rest, of "k + n"] by simp
  then show ?case using Cons.IH [OF rest, of "k + n"] by (auto simp: less_imp_le)
qed

lemma cumulative_last:
  assumes "\<forall>n \<in> set ns. 0 \<le> n" and "0 < sum_list ns"
  shows "cumulative k ns \<noteq> [] \<and> last (cumulative k ns) = k + sum_list ns"
  using assms
proof (induction ns arbitrary: k)
  case Nil
  then show ?case by simp
next
  case (Cons n ns)
  then have n0: "0 \<le> n" and rest: "\<forall>n \<in> set ns. 0 \<le> n" by simp_all
  have sum0: "0 \<le> sum_list ns" using rest by (simp add: sum_list_nonneg)
  show ?case
  proof (cases "0 < sum_list ns")
    case True
    from Cons.IH [OF rest True, of "k + n"] show ?thesis by (simp add: add.assoc)
  next
    case False
    with sum0 have z: "sum_list ns = 0" by simp
    with Cons.prems(2) have npos: "0 < n" by simp
    have "cumulative (k + n) ns = []"
    proof (rule ccontr)
      assume "cumulative (k + n) ns \<noteq> []"
      then obtain j where "j \<in> set (cumulative (k + n) ns)" by (cases "cumulative (k + n) ns") auto
      with cumulative_bounds [OF rest, of "k + n"] have "k + n < j \<and> j \<le> k + n + sum_list ns" by blast
      with z show False by simp
    qed
    then show ?thesis using npos z by simp
  qed
qed

lemma sorted_map_monotone:
  fixes f :: "int \<Rightarrow> int"
  assumes "sorted xs" and "mono f"
  shows "sorted (map f xs)"
  using assms by (induction xs) (auto simp: monoD)

text \<open>
  Claim C7 (as amended).  For every file of total size \<open>S\<close> with \<open>0 < S\<close> and
  \<open>100 * S < 2 ^ 53\<close>, and every sequence of reads of its instrumented body that returns at
  most \<open>S\<close> bytes in total: after \<open>k\<close> cumulative bytes the percentage forwarded to the sink
  is \<open>floor (k * 100 / S)\<close>; the forwarded percentages are non-decreasing; and the
  percentage is exactly 100 once \<open>k = S\<close>.
\<close>

theorem progress_percentage:
  "0 < S \<and> 100 * S < 2 ^ 53 \<and> (\<forall>n \<in> set ns. 0 \<le> n) \<and> sum_list ns \<le> S \<longrightarrow>
     forwarded \<lparr>pb_read = 0, pb_total = S\<rparr> ns = map (\<lambda>k. k * 100 div S) (cumulative 0 ns)
     \<and> sorted (forwarded \<lparr>pb_read = 0, pb_total = S\<rparr> ns)
     \<and> (sum_list ns = S \<longrightarrow> last (forwarded \<lparr>pb_read = 0, pb_total = S\<rparr> ns) = 100)"
proof (intro impI, elim conjE)
  assume S: "0 < S" and small: "100 * S < 2 ^ 53" and nonneg: "\<forall>n \<in> set ns. 0 \<le> n"
    and le: "sum_list ns \<le> S"
  have eq: "forwarded \<lparr>pb_read = 0, pb_total = S\<rparr> ns = map (\<lambda>k. k * 100 div S) (cumulative 0 ns)"
    using S small nonneg le by (intro forwarded_floor) simp_all
  have mono: "mono (\<lambda>k. k * 100 div S)"
    using S by (intro monoI zdiv_mono1) simp_all
  have srt: "sorted (map (\<lambda>k. k * 100 div S) (cumulative 0 ns))"
    using cumulative_sorted [OF nonneg, of 0] mono by (rule sorted_map_monotone)
  have fin: "last (map (\<lambda>k. k * 100 div S) (cumulative 0 ns)) = 100" if "sum_list ns = S"
  proof -
    from cumulative_last [OF nonneg, of 0] that S
    have "cumulative 0 ns \<noteq> []" and "last (cumulative 0 ns) = S" by simp_all
    then show ?thesis using S by (simp add: last_map)
  qed
  show "forwarded \<lparr>pb_read = 0, pb_total = S\<rparr> ns = map (\<lambda>k. k * 100 div S) (cumulative 0 ns)
     \<and> sorted (forwarded \<lparr>pb_read = 0, pb_total = S\<rparr> ns)
     \<and> (sum_list ns = S \<longrightarrow> last (forwarded \<lparr>pb_read = 0, pb_total = S\<rparr> ns) = 100)"
    using eq srt fin by simp
qed

theorem progress_percentage_witness:
  "0 < (7::int) \<and> 100 * (7::int) < 2 ^ 53 \<and> sum_list [3, 0, 2, 2::int] \<le> 7
   \<and> forwarded \<lparr>pb_read = 0, pb_total = 7\<rparr> [3, 0, 2, 2] = [42, 71, 100]
   \<and> sorted (forwarded \<lparr>pb_read = 0, pb_total = 7\<rparr> [3, 0, 2, 2])
   \<and> last (forwarded \<lparr>pb_read = 0, pb_total = 7\<rparr> [3, 0, 2, 2]) = 100"
  using progress_percentage [of 7 "[3, 0, 2, 2]"] by simp

text \<open>
  Without the bound on the size the claim fails, because the conversions and the product
  round: for a body of \<open>2 ^ 54\<close> bytes, after \<open>2 ^ 54 - 1\<close> bytes the forwarded percentage
  is 100, while \<open>floor (k * 100 / S)\<close> is 99; and for a body of 360288054254885 bytes the
  percentage forwarded by the read that completes the body is 99.
\<close>

theorem progress_percentage_counterexample:
  "forwarded \<lparr>pb_read = 2 ^ 54 - 2, pb_total = 2 ^ 54\<rparr> [1] = [100]
   \<and> (2 ^ 54 - 2 + 1) * 100 div 2 ^ 54 = (99::int)
   \<and> forwarded \<lparr>pb_read = 360288054254884, pb_total = 360288054254885\<rparr> [1] = [99]"
  by code_simp

section \<open>Properties of the file upload\<close>

lemma validateLoop_eq:
  "validateLoop fs fps missing valid =
     (missing @ filter (\<lambda>p. fs p = StatNotExist) (filter (\<lambda>p. p \<noteq> []) (map TrimSpace fps)),
      valid @ filter (\<lambda>p. fs p \<noteq> StatNotExist) (filter (\<lambda>p. p \<noteq> []) (map TrimSpace fps)))"
  by (induction fps arbitrary: missing valid) (simp_all add: Let_def)

lemma ValidateAndGetFileList_eq:
  "ValidateAndGetFileList fs filePaths =
     (let paths = filter (\<lambda>p. p \<noteq> []) (map TrimSpace (FieldsFunc filePaths (\<lambda>r. r = CHR '','')));
          missing = filter (\<lambda>p. fs p = StatNotExist) paths
      in if missing \<noteq> []
         then Inl (''file(s) do not exist or are not accessible: '' @ Join missing '', '')
         else Inr (filter (\<lambda>p. fs p \<noteq> StatNotExist) paths))"
  by (simp add: ValidateAndGetFileList_def validateLoop_eq Let_def)

lemma prompt_invalid_paths:
  assumes "ValidateAndGetFileList fs filePaths = Inl err"
  shows "opened (fst (snd (PromptAndUploadFilesIfNeeded c isUpload filePaths fs net api response))) = []"
    and "posted (fst (snd (PromptAndUploadFilesIfNeeded c isUpload filePaths fs net api response))) = []"
  using assms by (simp_all add: PromptAndUploadFilesIfNeeded_def Let_def)

lemma sample_fields:
  "filter (\<lambda>p. p \<noteq> []) (map TrimSpace (FieldsFunc '' a.txt, ,b.txt '' (\<lambda>r. r = CHR '','')))
     = [''a.txt'', ''b.txt'']"
  by (simp add: FieldsFunc_def TrimSpace_def isSpaceByte_def)

text \<open>
  Claim C5.  For every input string, validation splits it at the commas, trims each entry,
  drops the entries that are empty after trimming, and stats each remaining path.  If at least
  one remaining path does not exist, the result is the error that lists exactly the
  non-existing paths, in order, and the prompt function returns without opening a file or
  sending a request; otherwise the result is the list of remaining paths.  For the input
  \<open> a.txt, ,b.txt \<close>, where \<open>a.txt\<close> exists and \<open>b.txt\<close> does not, the error lists exactly
  \<open>b.txt\<close>: the empty middle entry is not treated as a file.
\<close>

theorem validate_file_list:
  "(let paths = filter (\<lambda>p. p \<noteq> []) (map TrimSpace (FieldsFunc filePaths (\<lambda>r. r = CHR '','')));
        missing = filter (\<lambda>p. fs p = StatNotExist) paths
    in (missing \<noteq> [] \<longrightarrow>
          ValidateAndGetFileList fs filePaths
            = Inl (''file(s) do not exist or are not accessible: '' @ Join missing '', '')
          \<and> opened (fst (snd (PromptAndUploadFilesIfNeeded c isUpload filePaths fs net api response))) = []
          \<and> posted (fst (snd (PromptAndUploadFilesIfNeeded c isUpload filePaths fs net api response))) = [])
       \<and> (missing = [] \<longrightarrow> ValidateAndGetFileList fs filePaths = Inr paths))
   \<and> (fs ''a.txt'' \<noteq> StatNotExist \<and> fs ''b.txt'' = StatNotExist \<longrightarrow>
        ValidateAndGetFileList fs '' a.txt, ,b.txt ''
          = Inl ''file(s) do not exist or are not accessible: b.txt'')"
proof -
  define paths where
    "paths = filter (\<lambda>p. p \<noteq> []) (map TrimSpace (FieldsFunc filePaths (\<lambda>r. r = CHR '','')))"
  define missing where "missing = filter (\<lambda>p. fs p = StatNotExist) paths"
  have v: "ValidateAndGetFileList fs filePaths =
        (if missing \<noteq> []
         then Inl (''file(s) do not exist or are not accessible: '' @ Join missing '', '')
         else Inr (filter (\<lambda>p. fs p \<noteq> StatNotExist) paths))"
    by (simp add: ValidateAndGetFileList_eq paths_def missing_def Let_def)
  have bad: "ValidateAndGetFileList fs filePaths
            = Inl (''file(s) do not exist or are not accessible: '' @ Join missing '', '')"
    if "missing \<noteq> []"
    using that by (simp add: v)
  have good: "ValidateAndGetFileList fs filePaths = Inr paths" if "missing = []"
  proof -
    from that have "\<forall>p \<in> set paths. fs p \<noteq> StatNotExist"
      by (simp add: missing_def filter_empty_conv)
    then have "filter (\<lambda>p. fs p \<noteq> StatNotExist) paths = paths"
      by (simp add: filter_id_conv)
    with that show ?thesis by (simp add: v)
  qed
  have ex: "ValidateAndGetFileList fs '' a.txt, ,b.txt ''
          = Inl ''file(s) do not exist or are not accessible: b.txt''"
    if "fs ''a.txt'' \<noteq> StatNotExist" and "fs ''b.txt'' = StatNotExist"
    using that unfolding ValidateAndGetFileList_eq sample_fields by (simp add: Let_def)
  show ?thesis
    unfolding Let_def paths_def [symmetric] missing_def [symmetric]
    using bad good ex prompt_invalid_paths [of fs filePaths _ c isUpload net api response]
    by simp
qed

theorem validate_file_list_witness:
  "ValidateAndGetFileList sampleFs '' a.txt, ,b.txt ''
          = Inl ''file(s) do not exist or are not accessible: b.txt''
   \<and> opened (fst (snd (PromptAndUploadFilesIfNeeded initialConfig (\<lambda>_. True) '' a.txt, ,b.txt ''
                         sampleFs sampleNet ''getUploadParamsForIso'' sampleResponse))) = []"
  using validate_file_list [where fs = sampleFs and filePaths = "'' a.txt, ,b.txt ''"
      and c = initialConfig and isUpload = "\<lambda>_. True" and net = sampleNet
      and api = "''getUploadParamsForIso''" and response = sampleResponse]
  by (simp add: sample_fields sampleFs_def Let_def)

lemma opened_append: "opened (xs @ ys) = opened xs @ opened ys"
  by (induction xs rule: opened.induct) simp_all

lemma errorReports_append: "errorReports (xs @ ys) = errorReports xs @ errorReports ys"
  by (induction xs rule: errorReports.induct) simp_all

lemma uploadFile_run:
  assumes "uploadFile net i count url p sg ex md spn (st, ev) = ((st', ev'), r)"
  shows "opened ev' = opened ev @ [p]"
    and "errorReports ev' = errorReports ev"
    and "(r \<noteq> None) = failed (net i p)"
    and "\<exists>more. ev' = ev @ more"
  using assms
  by (auto simp: uploadFile_def Let_def opened_append errorReports_append
      split: upload_outcome.splits if_splits)

lemma uploadLoop_run:
  assumes "uploadLoop net count url sg ex md spn i ps (st, ev, errored) = (st', ev', errored')"
  shows "opened ev' = opened ev @ ps
         \<and> errored' = errored + failures net i ps
         \<and> int (length (errorReports ev')) = int (length (errorReports ev)) + failures net i ps"
  using assms
proof (induction ps arbitrary: i st ev errored)
  case Nil
  then show ?case by simp
next
  case (Cons p ps)
  let ?st1 = "setSuffix spn ('' uploading '' @ fmt_d (int i + 1) @ ''/'' @ fmt_d (int count) @ '' ''
                     @ Base p @ ''...'') st"
  obtain st2 ev2 r where up: "uploadFile net i count url p sg ex md spn (?st1, ev) = ((st2, ev2), r)"
    by (metis prod.exhaust)
  note f = uploadFile_run [OF up]
  show ?case
  proof (cases r)
    case None
    with f(3) have nf: "\<not> failed (net i p)" by simp
    from Cons.prems up None
    have "uploadLoop net count url sg ex md spn (Suc i) ps (st2, ev2, errored) = (st', ev', errored')"
      by (simp add: Let_def)
    from Cons.IH [OF this] show ?thesis
      using f(1,2) nf by simp
  next
    case (Some err)
    with f(3) have fl: "failed (net i p)" by simp
    let ?ev3 = "ev2 @ [Stdout (''Error uploading '' @ p @ '' : '' @ err @ newline)]"
    from Cons.prems up Some
    have "uploadLoop net count url sg ex md spn (Suc i) ps
            (spinner_Start spn (setSuffix spn ('' '' @ uploadingMessage) (spinner_Stop spn st2)),
             ?ev3, errored + 1) = (st', ev', errored')"
      by (simp add: Let_def)
    from Cons.IH [OF this] show ?thesis
      using f(1,2) fl by (simp add: opened_append errorReports_append)
  qed
qed

lemma UploadFiles_run:
  assumes shell: "HasShell c"
    and params: "map_of response ''getuploadparams'' = Some (GMap params)"
    and keys: "firstMissingKey params requiredKeys = None"
  shows "snd (snd (UploadFiles c net api response validFiles)) = Returned"
    and "opened (fst (snd (UploadFiles c net api response validFiles))) = validFiles"
    and "last (fst (snd (UploadFiles c net api response validFiles)))
           = Stdout (summaryLine (failures net 0 validFiles) (int (length validFiles)))"
    and "int (length (errorReports (fst (snd (UploadFiles c net api response validFiles)))))
           = failures net 0 validFiles"
proof -
  let ?ev0 = "[Stdout (''Uploading files for '' @ api @ '' : ['' @ Join validFiles '' '' @ '']'' @ newline)]"
  obtain c1 where start: "StartSpinner c uploadingMessage = (Some (fresh c), c1)"
    using shell by (simp add: StartSpinner_def Let_def)
  obtain st ev errored where
    loop: "uploadLoop net (length validFiles) (stringField params ''postURL'')
             (stringField params ''signature'') (stringField params ''expires'')
             (stringField params ''metadata'') (fresh c) 0 validFiles (store c1, ?ev0, 0)
           = (st, ev, errored)"
    by (metis prod.exhaust)
  have run: "UploadFiles c net api response validFiles =
        (StopSpinner (c1\<lparr>store := st\<rparr>) (Some (fresh c)),
         ev @ [Stdout (summaryLine errored (int (length validFiles)))], Returned)"
    using loop by (simp add: UploadFiles_def Let_def params keys start)
  note inv = uploadLoop_run [OF loop]
  have uline: "\<not> prefix ''Error uploading '' (''Uploading files for '' @ x)" for x
    by simp
  have sline: "\<not> prefix ''Error uploading '' (summaryLine k n)" for k n
    by (simp add: summaryLine_def seeNoEvil_def)
  show "snd (snd (UploadFiles c net api response validFiles)) = Returned"
    by (simp add: run)
  show "opened (fst (snd (UploadFiles c net api response validFiles))) = validFiles"
    using inv by (simp add: run opened_append)
  show "last (fst (snd (UploadFiles c net api response validFiles)))
           = Stdout (summaryLine (failures net 0 validFiles) (int (length validFiles)))"
    using inv by (simp add: run)
  show "int (length (errorReports (fst (snd (UploadFiles c net api response validFiles)))))
           = failures net 0 validFiles"
    using inv uline sline by (simp add: run errorReports_append)
qed

lemma fmt_d_digits: "fmt_d 1 = ''1''" "fmt_d 3 = ''3''"
  by code_simp+

text \<open>
  Claim C3 (as amended).  In an interactive session and with complete upload parameters, a
  batch of \<open>n\<close> files is processed in order: every file of the batch is attempted, whatever
  happened to the files before it; each failing file (a local error, a transport error or a
  status other than 200 and 201) is reported on standard output and counted.  After the batch,
  if \<open>k > 0\<close> files failed the last line is the see-no-evil pictograph followed by
  \<open> k out of n files failed to upload.\<close> (so \<open>1 out of 3\<close> for one failure in a batch of
  three), and otherwise it is \<open>All files uploaded successfully.\<close>
\<close>

theorem upload_batch:
  "(HasShell c \<and> map_of response ''getuploadparams'' = Some (GMap params)
     \<and> firstMissingKey params requiredKeys = None \<longrightarrow>
     (let ev = fst (snd (UploadFiles c net api response validFiles));
          k = failures net 0 validFiles;
          n = int (length validFiles)
      in snd (snd (UploadFiles c net api response validFiles)) = Returned
         \<and> opened ev = validFiles
         \<and> int (length (errorReports ev)) = k
         \<and> (0 < k \<longrightarrow> last ev = Stdout (seeNoEvil @ '' '' @ fmt_d k @ '' out of '' @ fmt_d n
                                          @ '' files failed to upload.'' @ newline))
         \<and> (k = 0 \<longrightarrow> last ev = Stdout (''All files uploaded successfully.'' @ newline))))
   \<and> summaryLine 1 3 = seeNoEvil @ '' 1 out of 3 files failed to upload.'' @ newline"
proof -
  have "summaryLine 1 3 = seeNoEvil @ '' 1 out of 3 files failed to upload.'' @ newline"
    by (simp add: summaryLine_def fmt_d_digits)
  then show ?thesis
    using UploadFiles_run [of c response params net api validFiles]
    by (simp add: Let_def summaryLine_def)
qed

lemma sample_params:
  "map_of sampleResponse ''getuploadparams''
     = Some (GMap [(''postURL'', GString ''https://host/upload''), (''metadata'', GString ''m''),
                   (''signature'', GString ''s''), (''expires'', GString ''e'')])"
  "firstMissingKey [(''postURL'', GString ''https://host/upload''), (''metadata'', GString ''m''),
                    (''signature'', GString ''s''), (''expires'', GString ''e'')] requiredKeys = None"
  by (simp_all add: sampleResponse_def requiredKeys_def)

lemma sample_failures: "failures sampleNet 0 sampleBatch = 1"
  by (simp add: sampleNet_def sampleBatch_def)

theorem upload_batch_witness:
  "HasShell initialConfig
   \<and> opened (fst (snd (UploadFiles initialConfig sampleNet ''getUploadParamsForIso'' sampleResponse sampleBatch)))
       = [''a.txt'', ''b.txt'', ''c.txt'']
   \<and> length (errorReports (fst (snd (UploadFiles initialConfig sampleNet ''getUploadParamsForIso''
                                         sampleResponse sampleBatch)))) = 1
   \<and> last (fst (snd (UploadFiles initialConfig sampleNet ''getUploadParamsForIso'' sampleResponse sampleBatch)))
       = Stdout (seeNoEvil @ '' 1 out of 3 files failed to upload.'' @ newline)"
proof -
  have shell: "HasShell initialConfig" by (simp add: initialConfig_def)
  from upload_batch [where c = initialConfig and response = sampleResponse and net = sampleNet
      and api = "''getUploadParamsForIso''" and validFiles = sampleBatch, THEN conjunct1, rule_format]
    shell sample_params
  show ?thesis
    by (simp add: Let_def sample_failures fmt_d_digits) (simp add: sampleBatch_def fmt_d_digits)
qed

text \<open>
  The claim as stated gives the summary the form \<open>N of M files failed to upload.\<close>  For a
  batch of three files whose second file is answered with status 500, the last line is not
  \<open>1 of 3 files failed to upload.\<close> and does not contain \<open>1 of 3\<close>.
\<close>

theorem upload_summary_counterexample:
  "last (fst (snd (UploadFiles initialConfig sampleNet ''getUploadParamsForIso'' sampleResponse sampleBatch)))
       = Stdout (seeNoEvil @ '' 1 out of 3 files failed to upload.'' @ newline)
   \<and> seeNoEvil @ '' 1 out of 3 files failed to upload.'' @ newline \<noteq> ''1 of 3 files failed to upload.''
   \<and> seeNoEvil @ '' 1 out of 3 files failed to upload.'' @ newline
        \<noteq> ''1 of 3 files failed to upload.'' @ newline
   \<and> \<not> Contains (seeNoEvil @ '' 1 out of 3 files failed to upload.'' @ newline) ''1 of 3''"
proof -
  have shell: "HasShell initialConfig" by (simp add: initialConfig_def)
  have "last (fst (snd (UploadFiles initialConfig sampleNet ''getUploadParamsForIso'' sampleResponse sampleBatch)))
       = Stdout (summaryLine 1 3)"
    using UploadFiles_run(3) [OF shell sample_params, of sampleNet "''getUploadParamsForIso''" sampleBatch]
    by (simp add: sample_failures) (simp add: sampleBatch_def)
  moreover have "summaryLine 1 3 = seeNoEvil @ '' 1 out of 3 files failed to upload.'' @ newline"
    by (simp add: summaryLine_def fmt_d_digits)
  moreover have "\<not> Contains (seeNoEvil @ '' 1 out of 3 files failed to upload.'' @ newline) ''1 of 3''"
    by (simp add: seeNoEvil_def newline_def)
  ultimately show ?thesis
    by (simp add: seeNoEvil_def)
qed

text \<open>
  The validation of the upload parameters: when the key is absent, when its value is neither
  \<open>nil\<close> nor a map, and when the map lacks one of the four required keys, \<open>UploadFiles\<close>
  prints one line and returns, with no file opened and no request sent.
\<close>

lemma firstMissingKey_Some:
  "\<exists>key \<in> set ks. map_of m key = None \<Longrightarrow> \<exists>k. firstMissingKey m ks = Some k"
  by (induction ks) auto

lemma upload_params_validation:
  assumes "map_of response ''getuploadparams'' = None
           \<or> (\<exists>v. map_of response ''getuploadparams'' = Some v \<and> v \<noteq> GNil \<and> (\<forall>m. v \<noteq> GMap m))
           \<or> (\<exists>m. map_of response ''getuploadparams'' = Some (GMap m)
                    \<and> (\<exists>key \<in> set requiredKeys. map_of m key = None))"
  shows "\<exists>line. UploadFiles c net api response validFiles = (c, [Stdout line], Returned)"
  using assms
proof (elim disjE exE conjE)
  assume "map_of response ''getuploadparams'' = None"
  then show ?thesis by (simp add: UploadFiles_def)
next
  fix v
  assume "map_of response ''getuploadparams'' = Some v" "v \<noteq> GNil" "\<forall>m. v \<noteq> GMap m"
  then show ?thesis by (cases v) (simp_all add: UploadFiles_def)
next
  fix m
  assume p: "map_of response ''getuploadparams'' = Some (GMap m)"
    and "\<exists>key \<in> set requiredKeys. map_of m key = None"
  then obtain k where "firstMissingKey m requiredKeys = Some k"
    using firstMissingKey_Some by blast
  with p show ?thesis by (simp add: UploadFiles_def)
qed

text \<open>
  Claim C4.  The claim holds except for one value that is not a mapping: when the response
  holds \<open>nil\<close> under \<open>getuploadparams\<close>, the type inspection
  \<open>reflect.TypeOf(paramsRaw).Kind()\<close> dereferences a \<open>nil\<close> type and the program panics;
  nothing is reported.  A string under the same key is reported as an invalid response.
\<close>

theorem upload_params_nil_panics:
  "UploadFiles initialConfig sampleNet ''getUploadParamsForIso'' [(''getuploadparams'', GNil)] sampleBatch
     = (initialConfig, [], Panicked)
   \<and> UploadFiles initialConfig sampleNet ''getUploadParamsForIso'' [(''getuploadparams'', GString ''x'')] sampleBatch
     = (initialConfig, [Stdout (''Invalid response format for getuploadparams.'' @ newline)], Returned)"
  by (simp add: UploadFiles_def)

end
